theory Spec2Isabelle
  imports Complex_Main
begin

section \<open>C library pieces used by \<open>main.cpp\<close>\<close>

text \<open>
  The program reads its options with \<open>getopt\<close> and converts option arguments with
  \<open>atoi\<close>. Both belong to the C library; they are modelled here as glibc implements
  them, on strings as character lists.
\<close>

definition isspace :: "char \<Rightarrow> bool" where
  "isspace c = (c \<in> set [CHR '' '', CHR 0x09, CHR 0x0A, CHR 0x0B, CHR 0x0C, CHR 0x0D])"

definition isdigit :: "char \<Rightarrow> bool" where
  "isdigit c = (c \<in> set ''0123456789'')"

definition digit_val :: "char \<Rightarrow> int" where
  "digit_val c = of_char c - 48"

definition decimal :: "string \<Rightarrow> int" where
  "decimal ds = foldl (\<lambda>a c. 10 * a + digit_val c) 0 ds"

definition INT_MAX :: int where "INT_MAX = 2147483647"
definition INT_MIN :: int where "INT_MIN = - 2147483648"
definition LONG_MAX :: int where "LONG_MAX = 9223372036854775807"
definition LONG_MIN :: int where "LONG_MIN = - 9223372036854775808"

text \<open>\<open>strtol(s, NULL, 10)\<close>: leading white space, an optional sign, the longest run
  of digits (none: the value 0), saturating at the bounds of \<open>long\<close>.\<close>

definition strtol :: "string \<Rightarrow> int" where
  "strtol s =
     (let s1 = dropWhile isspace s;
          neg = (s1 \<noteq> [] \<and> hd s1 = CHR ''-'');
          s2 = (if s1 \<noteq> [] \<and> (hd s1 = CHR ''-'' \<or> hd s1 = CHR ''+'') then tl s1 else s1);
          v = decimal (takeWhile isdigit s2);
          r = (if neg then - v else v)
      in max LONG_MIN (min LONG_MAX r))"

text \<open>The conversion of a \<open>long\<close> to \<open>int\<close> keeps the low 32 bits.\<close>

definition int_of_long :: "int \<Rightarrow> int" where
  "int_of_long x = (x + 2147483648) mod 4294967296 - 2147483648"

definition atoi :: "string \<Rightarrow> int" where
  "atoi s = int_of_long (strtol s)"

subsection \<open>\<open>getopt\<close>\<close>

text \<open>
  The scanner state: \<open>nextchar\<close> holds the option characters of the argument being
  scanned that are still to come, \<open>rest\<close> the arguments from \<open>optind\<close> on (the one
  being scanned excluded), \<open>skipped\<close> the non-option arguments passed over so far, which
  glibc moves behind the options. The argument vector is given without \<open>argv[0]\<close>.
\<close>

record getopt_state =
  nextchar :: string
  rest :: "string list"
  skipped :: "string list"

datatype getopt_result = Done | Opt char "string option"

definition getopt_init :: "string list \<Rightarrow> getopt_state" where
  "getopt_init args = \<lparr>nextchar = [], rest = args, skipped = []\<rparr>"

definition nonoption :: "string \<Rightarrow> bool" where
  "nonoption a = (case a of [] \<Rightarrow> True | c # cs \<Rightarrow> c \<noteq> CHR ''-'' \<or> cs = [])"

text \<open>\<open>strchr(optstring, c)\<close>, as the text of \<open>optstring\<close> from the first \<open>c\<close> on.\<close>

fun strchr :: "string \<Rightarrow> char \<Rightarrow> string option" where
  "strchr [] c = None"
| "strchr (x # xs) c = (if x = c then Some (x # xs) else strchr xs c)"

datatype arg_kind = No_arg | Required_arg | Optional_arg

definition opt_kind :: "string \<Rightarrow> char \<Rightarrow> arg_kind option" where
  "opt_kind optstring c =
     (case strchr optstring c of
        None \<Rightarrow> None
      | Some temp \<Rightarrow>
          if c = CHR '':'' \<or> c = CHR '';'' then None
          else if take 1 (drop 1 temp) = '':'' then
            (if take 1 (drop 2 temp) = '':'' then Some Optional_arg else Some Required_arg)
          else Some No_arg)"

text \<open>The handling of one option character \<open>c\<close>, \<open>cs\<close> being what follows it in
  its argument.\<close>

definition short_option :: "string \<Rightarrow> char \<Rightarrow> string \<Rightarrow> getopt_state \<Rightarrow> getopt_result \<times> getopt_state" where
  "short_option optstring c cs gs =
     (case opt_kind optstring c of
        None \<Rightarrow> (Opt CHR ''?'' None, gs\<lparr>nextchar := cs\<rparr>)
      | Some No_arg \<Rightarrow> (Opt c None, gs\<lparr>nextchar := cs\<rparr>)
      | Some Optional_arg \<Rightarrow>
          (if cs \<noteq> [] then (Opt c (Some cs), gs\<lparr>nextchar := []\<rparr>)
           else (Opt c None, gs\<lparr>nextchar := []\<rparr>))
      | Some Required_arg \<Rightarrow>
          (if cs \<noteq> [] then (Opt c (Some cs), gs\<lparr>nextchar := []\<rparr>)
           else (case rest gs of
                   [] \<Rightarrow> (Opt CHR ''?'' None, gs\<lparr>nextchar := []\<rparr>)
                 | a # as \<Rightarrow> (Opt c (Some a), gs\<lparr>nextchar := [], rest := as\<rparr>))))"

text \<open>
  One call of \<open>getopt\<close>. With \<open>permute\<close> (the default of glibc) non-option arguments
  are skipped and options after them are still found; without it (\<open>POSIXLY_CORRECT\<close>
  set) the scan ends at the first non-option argument. The argument \<open>--\<close> ends the scan
  in both modes.
\<close>

definition skip_nonoptions :: "bool \<Rightarrow> getopt_state \<Rightarrow> getopt_state" where
  "skip_nonoptions permute gs =
     (if permute
      then gs\<lparr>skipped := skipped gs @ takeWhile nonoption (rest gs),
              rest := dropWhile nonoption (rest gs)\<rparr>
      else gs)"

definition next_element :: "string \<Rightarrow> getopt_state \<Rightarrow> getopt_result \<times> getopt_state" where
  "next_element optstring gs =
     (case rest gs of
        [] \<Rightarrow> (Done, gs)
      | a # as \<Rightarrow>
          if a = ''--'' then (Done, gs\<lparr>rest := as\<rparr>)
          else if nonoption a then (Done, gs)
          else short_option optstring (hd (tl a)) (tl (tl a)) (gs\<lparr>rest := as\<rparr>))"

definition getopt :: "bool \<Rightarrow> string \<Rightarrow> getopt_state \<Rightarrow> getopt_result \<times> getopt_state" where
  "getopt permute optstring gs =
     (case nextchar gs of
        c # cs \<Rightarrow> short_option optstring c cs gs
      | [] \<Rightarrow> next_element optstring (skip_nonoptions permute gs))"

text \<open>\<open>optind != argc\<close> after a call that returned \<open>r\<close>. When the scan is over,
  \<open>optind\<close> is at the first of the arguments left unread; after an option it is at the
  argument being scanned, or past it once its last character is taken.\<close>

definition optind_neq_argc :: "getopt_result \<Rightarrow> getopt_state \<Rightarrow> bool" where
  "optind_neq_argc r gs =
     (case r of
        Done \<Rightarrow> skipped gs \<noteq> [] \<or> rest gs \<noteq> []
      | Opt c a \<Rightarrow> nextchar gs \<noteq> [] \<or> rest gs \<noteq> [])"

definition getopt_size :: "getopt_state \<Rightarrow> nat" where
  "getopt_size gs = length (nextchar gs) + sum_list (map (\<lambda>a. Suc (length a)) (rest gs))"

lemma short_option_size:
  "short_option os c cs gs = (r, gs') \<Longrightarrow>
     getopt_size gs' \<le> length cs + sum_list (map (\<lambda>a. Suc (length a)) (rest gs))"
  by (auto simp: short_option_def getopt_size_def split: option.splits arg_kind.splits if_splits list.splits)

lemma sum_list_dropWhile_le:
  "sum_list (map f (dropWhile P xs)) \<le> sum_list (map (f :: 'a \<Rightarrow> nat) xs)"
  by (induction xs) auto

lemma next_element_size:
  assumes "next_element os gs = (Opt c a, gs')"
  shows "getopt_size gs' < sum_list (map (\<lambda>a. Suc (length a)) (rest gs))"
proof -
  from assms obtain x xs where r: "rest gs = x # xs" and nn: "\<not> nonoption x"
    and so: "short_option os (hd (tl x)) (tl (tl x)) (gs\<lparr>rest := xs\<rparr>) = (Opt c a, gs')"
    by (cases "rest gs") (auto simp: next_element_def split: if_splits)
  from nn have "length (tl (tl x)) + 2 \<le> length x"
    by (cases x; cases "tl x") (auto simp: nonoption_def)
  moreover from short_option_size[OF so]
  have "getopt_size gs' \<le> length (tl (tl x)) + sum_list (map (\<lambda>a. Suc (length a)) xs)"
    by simp
  ultimately show ?thesis using r by simp
qed

lemma getopt_size_less:
  assumes "getopt permute os gs = (Opt c a, gs')"
  shows "getopt_size gs' < getopt_size gs"
proof (cases "nextchar gs")
  case (Cons x xs)
  with assms have "short_option os x xs gs = (Opt c a, gs')"
    by (simp add: getopt_def)
  from short_option_size[OF this] Cons show ?thesis
    by (simp add: getopt_size_def)
next
  case Nil
  with assms have "next_element os (skip_nonoptions permute gs) = (Opt c a, gs')"
    by (simp add: getopt_def)
  from next_element_size[OF this]
  have "getopt_size gs' < sum_list (map (\<lambda>a. Suc (length a)) (rest (skip_nonoptions permute gs)))" .
  also have "\<dots> \<le> sum_list (map (\<lambda>a. Suc (length a)) (rest gs))"
    by (simp add: skip_nonoptions_def sum_list_dropWhile_le)
  finally show ?thesis using Nil
    by (simp add: getopt_size_def)
qed

section \<open>The configuration record and the call of the engine\<close>

text \<open>
  The two \<open>float\<close> fields are kept as the expressions that the source stores in them:
  a literal of the source, \<open>1.0 + static_cast<float>(n) / 100\<close> for an \<open>int\<close>
  \<open>n\<close>, or \<open>atof\<close> of a string.
\<close>

datatype cfloat = Float_literal string | Tolerance_of_percent int | Atof string

text \<open>
  The value of such an expression in binary floating point, as a rational number.
  \<open>round_to prec x\<close> is \<open>x\<close> rounded to the nearest number with \<open>prec\<close> significant
  bits, ties to the even one; \<open>float\<close> is the format with 24 bits and \<open>double\<close> the
  one with 53. The range of the exponent is left out: no value here leaves the normal
  range. Operations on \<open>float\<close> operands are rounded to \<open>float\<close>
  (\<open>FLT_EVAL_METHOD\<close> 0).
\<close>

fun bit_length :: "nat \<Rightarrow> nat" where
  "bit_length n = (if n = 0 then 0 else Suc (bit_length (n div 2)))"

definition pow2 :: "int \<Rightarrow> rat" where
  "pow2 e = (if 0 \<le> e then 2 ^ nat e else 1 / 2 ^ nat (- e))"

text \<open>\<open>binade x\<close> is the exponent \<open>k\<close> with \<open>2^k \<le> |x| < 2^(k+1)\<close>, for \<open>x\<close> not 0.\<close>

definition binade :: "rat \<Rightarrow> int" where
  "binade x =
     (let a = \<bar>x\<bar>
      in if 1 \<le> a then int (bit_length (nat \<lfloor>a\<rfloor>)) - 1
         else let b = int (bit_length (nat \<lfloor>1 / a\<rfloor>))
              in if 1 / a = pow2 (b - 1) then - (b - 1) else - b)"

definition round_half_even :: "rat \<Rightarrow> int" where
  "round_half_even y =
     (let f = \<lfloor>y\<rfloor>; d = y - of_int f
      in if d < 1 / 2 then f else if 1 / 2 < d then f + 1 else if even f then f else f + 1)"

definition round_to :: "nat \<Rightarrow> rat \<Rightarrow> rat" where
  "round_to prec x =
     (if x = 0 then 0
      else let u = pow2 (binade x - int prec + 1)
           in of_int (round_half_even (x / u)) * u)"

definition binary32 :: "rat \<Rightarrow> rat" where "binary32 = round_to 24"
definition binary64 :: "rat \<Rightarrow> rat" where "binary64 = round_to 53"

text \<open>A literal \<open>digits.digits\<close> of the source has type \<open>double\<close> and is converted to
  \<open>float\<close> when it initialises a \<open>float\<close> member. In
  \<open>1.0 + static_cast<float>(n) / 100\<close> the division is a \<open>float\<close> division, the
  addition a \<open>double\<close> addition, and the assignment rounds the sum to \<open>float\<close>.
  The result of \<open>atof\<close> is not evaluated.\<close>

definition decimal_literal :: "string \<Rightarrow> rat option" where
  "decimal_literal s =
     (let ip = takeWhile isdigit s; r = dropWhile isdigit s
      in if ip \<noteq> [] \<and> take 1 r = ''.'' \<and> list_all isdigit (drop 1 r)
         then Some (of_int (decimal (ip @ drop 1 r)) / 10 ^ length (drop 1 r))
         else None)"

definition float_value :: "cfloat \<Rightarrow> rat option" where
  "float_value f =
     (case f of
        Float_literal s \<Rightarrow> map_option (\<lambda>x. binary32 (binary64 x)) (decimal_literal s)
      | Tolerance_of_percent n \<Rightarrow>
          Some (binary32 (binary64 (1 + binary32 (binary32 (of_int n) / binary32 100))))
      | Atof s \<Rightarrow> None)"

record DDMparams =
  file_in :: string
  file_out :: string
  q_file_name :: string
  t_file_name :: string
  s_file_name :: string
  e_file_name :: string
  frame_count :: int
  frame_offset :: int
  x_off :: int
  y_off :: int
  chunk_length :: int
  rolling_purge :: int
  use_webcam :: bool
  webcam_idx :: int
  use_movie_file :: bool
  use_index_fps :: bool
  use_explicit_fps :: bool
  explicit_fps :: cfloat
  multi_stream :: bool
  q_tolerance :: cfloat
  benchmark_mode :: bool
  use_episodes :: bool
  enable_angle_analysis :: bool
  angle_count :: int

text \<open>The global \<open>params\<close> before \<open>main\<close> runs: the member initialisers of the
  struct, an empty string for each path, and zero for \<open>frame_count\<close>, which has no
  initialiser and sits in static storage.\<close>

definition params_init :: DDMparams where
  "params_init =
     \<lparr>file_in = [], file_out = [], q_file_name = [], t_file_name = [], s_file_name = [],
      e_file_name = [], frame_count = 0, frame_offset = 0, x_off = 0, y_off = 0,
      chunk_length = 30, rolling_purge = 0, use_webcam = False, webcam_idx = 0,
      use_movie_file = False, use_index_fps = False, use_explicit_fps = False,
      explicit_fps = Float_literal ''1.0'', multi_stream = True,
      q_tolerance = Float_literal ''1.2'', benchmark_mode = False, use_episodes = False,
      enable_angle_analysis = False, angle_count = 8\<rparr>"

text \<open>An array is a list of cells; a cell that was never written holds \<open>None\<close>.\<close>

type_synonym 'a array = "'a option list"

text \<open>The arguments of \<open>runDDM\<close>, named as its declaration names them.\<close>

record 'f runDDM_args =
  arg_file_in :: string
  arg_file_out :: string
  arg_tau_arr :: "int array"
  arg_tau_count :: int
  arg_lambda_arr :: "'f array"
  arg_lambda_count :: int
  arg_scale_arr :: "int array"
  arg_scale_count :: int
  arg_x_off :: int
  arg_y_off :: int
  arg_episode_vector :: "int array"
  arg_episode_count :: int
  arg_frame_count :: int
  arg_frame_offset :: int
  arg_chunk_frame_count :: int
  arg_multistream :: bool
  arg_use_webcam :: bool
  arg_webcam_idx :: int
  arg_q_tolerance :: cfloat
  arg_use_movie_file :: bool
  arg_use_index_fps :: bool
  arg_use_explicit_fps :: bool
  arg_explicit_fps :: cfloat
  arg_dump_accum_after :: int
  arg_benchmark_mode :: bool
  arg_enable_angle_analysis :: bool
  arg_angle_count :: int

section \<open>Diagnostics (\<open>debug.cpp\<close>) and the ways the process ends\<close>

text \<open>What the program writes to \<open>stderr\<close>: the help text, or a line of
  \<open>conditionAssert\<close>. The two lines that \<open>main\<close> prints to \<open>stdout\<close> are left out,
  and so is the line that \<open>getopt\<close> itself writes when it returns \<open>?\<close>.\<close>

datatype written = Help_text | Line string

datatype undefined_behaviour = Null_optarg | Int_overflow | Out_of_bounds

text \<open>\<open>Returned n\<close>: \<open>main\<close> returns \<open>n\<close>; \<open>Exited n\<close>: \<open>exit(n)\<close> is called. Both carry
  what \<open>stderr\<close> has received.\<close>

datatype halt = Returned int "written list" | Exited int "written list" | Undefined undefined_behaviour

definition EXIT_FAILURE :: int where "EXIT_FAILURE = 1"

definition printHelp :: "written list \<Rightarrow> written list" where
  "printHelp err = err @ [Help_text]"

definition conditionAssert :: "bool \<Rightarrow> string \<Rightarrow> bool \<Rightarrow> written list \<Rightarrow> halt + written list" where
  "conditionAssert condition text abort err =
     (if condition = False then
        (if abort then Inl (Exited EXIT_FAILURE (err @ [Line (''[Error] '' @ text @ [CHR 0x0A])]))
         else Inr (err @ [Line (''[Warning] '' @ text @ [CHR 0x0A])]))
      else Inr err)"

section \<open>Option parsing (\<open>main\<close>, the \<open>getopt\<close> loop)\<close>

record main_state =
  params :: DDMparams
  Verbose :: bool
  input_specified :: bool
  stderr :: "written list"

definition main_init :: main_state where
  "main_init = \<lparr>params = params_init, Verbose = False, input_specified = False, stderr = []\<rparr>"

definition optstring :: string where
  "optstring = ''ho:N:s:x:y:Q:T:S:E:If:W::vZt:C:MG:F:BAn:''"

text \<open>What one pass through the \<open>switch\<close> does: \<open>continue\<close> with a new state, leave
  the \<open>switch\<close> and reach the \<open>break\<close> behind it, or end the process.\<close>

datatype flow = Continue main_state | Break | Halt halt

definition set_param :: "(DDMparams \<Rightarrow> DDMparams) \<Rightarrow> main_state \<Rightarrow> flow" where
  "set_param f st = Continue (st\<lparr>params := f (params st)\<rparr>)"

text \<open>An option whose argument is read without a test for \<open>NULL\<close>.\<close>

definition with_optarg :: "string option \<Rightarrow> (string \<Rightarrow> flow) \<Rightarrow> flow" where
  "with_optarg optarg k = (case optarg of None \<Rightarrow> Halt (Undefined Null_optarg) | Some a \<Rightarrow> k a)"

definition source_conflict :: string where
  "source_conflict = ''Cannot use both in-filepath and web-cam option at same time.''"

definition switch_body :: "char \<Rightarrow> string option \<Rightarrow> main_state \<Rightarrow> flow" where
  "switch_body c optarg st =
     (if c = CHR ''?'' \<or> c = CHR ''h'' then Halt (Returned (- 1) (printHelp (stderr st)))
      else if c = CHR ''o'' then with_optarg optarg (\<lambda>a. set_param (\<lambda>p. p\<lparr>file_out := a\<rparr>) st)
      else if c = CHR ''N'' then with_optarg optarg (\<lambda>a. set_param (\<lambda>p. p\<lparr>frame_count := atoi a\<rparr>) st)
      else if c = CHR ''x'' then with_optarg optarg (\<lambda>a. set_param (\<lambda>p. p\<lparr>x_off := atoi a\<rparr>) st)
      else if c = CHR ''y'' then with_optarg optarg (\<lambda>a. set_param (\<lambda>p. p\<lparr>y_off := atoi a\<rparr>) st)
      else if c = CHR ''Q'' then with_optarg optarg (\<lambda>a. set_param (\<lambda>p. p\<lparr>q_file_name := a\<rparr>) st)
      else if c = CHR ''T'' then with_optarg optarg (\<lambda>a. set_param (\<lambda>p. p\<lparr>t_file_name := a\<rparr>) st)
      else if c = CHR ''S'' then with_optarg optarg (\<lambda>a. set_param (\<lambda>p. p\<lparr>s_file_name := a\<rparr>) st)
      else if c = CHR ''E'' then with_optarg optarg (\<lambda>a. set_param (\<lambda>p. p\<lparr>e_file_name := a\<rparr>) st)
      else if c = CHR ''I'' then set_param (\<lambda>p. p\<lparr>use_index_fps := True\<rparr>) st
      else if c = CHR ''s'' then with_optarg optarg (\<lambda>a. set_param (\<lambda>p. p\<lparr>frame_offset := atoi a\<rparr>) st)
      else if c = CHR ''f'' then
        (case conditionAssert (\<not> input_specified st) source_conflict True (stderr st) of
           Inl h \<Rightarrow> Halt h
         | Inr err \<Rightarrow>
             with_optarg optarg (\<lambda>a.
               Continue (st\<lparr>params := (params st)\<lparr>file_in := a\<rparr>,
                            input_specified := True, stderr := err\<rparr>)))
      else if c = CHR ''W'' then
        (case conditionAssert (\<not> input_specified st) source_conflict True (stderr st) of
           Inl h \<Rightarrow> Halt h
         | Inr err \<Rightarrow>
             Continue (st\<lparr>params :=
                            (case optarg of
                               None \<Rightarrow> (params st)\<lparr>use_webcam := True\<rparr>
                             | Some a \<Rightarrow> (params st)\<lparr>use_webcam := True, webcam_idx := atoi a\<rparr>),
                          input_specified := True, stderr := err\<rparr>))
      else if c = CHR ''B'' then
        Continue (st\<lparr>params := (params st)\<lparr>benchmark_mode := True\<rparr>, input_specified := True\<rparr>)
      else if c = CHR ''v'' then Continue (st\<lparr>Verbose := True\<rparr>)
      else if c = CHR ''t'' then
        with_optarg optarg (\<lambda>a. set_param (\<lambda>p. p\<lparr>q_tolerance := Tolerance_of_percent (atoi a)\<rparr>) st)
      else if c = CHR ''C'' then with_optarg optarg (\<lambda>a. set_param (\<lambda>p. p\<lparr>chunk_length := atoi a\<rparr>) st)
      else if c = CHR ''M'' then set_param (\<lambda>p. p\<lparr>use_movie_file := True\<rparr>) st
      else if c = CHR ''G'' then with_optarg optarg (\<lambda>a. set_param (\<lambda>p. p\<lparr>rolling_purge := atoi a\<rparr>) st)
      else if c = CHR ''F'' then
        with_optarg optarg (\<lambda>a. set_param (\<lambda>p. p\<lparr>use_explicit_fps := True, explicit_fps := Atof a\<rparr>) st)
      else if c = CHR ''A'' then set_param (\<lambda>p. p\<lparr>enable_angle_analysis := True\<rparr>) st
      else if c = CHR ''n'' then with_optarg optarg (\<lambda>a. set_param (\<lambda>p. p\<lparr>angle_count := atoi a\<rparr>) st)
      else Break)"

text \<open>
  The loop \<open>for (;;) { switch (getopt(...)) { ... } break; }\<close>. It is left by the
  \<open>break\<close> when \<open>getopt\<close> returns \<open>-1\<close> or a character that no \<open>case\<close> names; the
  result then holds the state, what \<open>getopt\<close> returned last and where its scan stands.
\<close>

function option_loop :: "bool \<Rightarrow> main_state \<Rightarrow> getopt_state \<Rightarrow> halt + (main_state \<times> getopt_result \<times> getopt_state)" where
  "option_loop permute st gs =
     (case getopt permute optstring gs of
        (Done, gs') \<Rightarrow> Inr (st, Done, gs')
      | (Opt c optarg, gs') \<Rightarrow>
          (case switch_body c optarg st of
             Continue st' \<Rightarrow> option_loop permute st' gs'
           | Break \<Rightarrow> Inr (st, Opt c optarg, gs')
           | Halt h \<Rightarrow> Inl h))"
  by pat_completeness auto
termination
  by (relation "measure (\<lambda>(permute, st, gs). getopt_size gs)")
     (auto dest: getopt_size_less[OF sym])

text \<open>The two checks behind the loop.\<close>

definition parse_options :: "bool \<Rightarrow> string list \<Rightarrow> halt + main_state" where
  "parse_options permute args =
     (case option_loop permute main_init (getopt_init args) of
        Inl h \<Rightarrow> Inl h
      | Inr (st, r, gs) \<Rightarrow>
          (case (if optind_neq_argc r gs
                 then conditionAssert False ''An unexpected option was found.'' True
                        (printHelp (stderr st))
                 else Inr (stderr st)) of
             Inl h \<Rightarrow> Inl h
           | Inr err1 \<Rightarrow>
               (case conditionAssert (input_specified st) ''Must specify input.'' True err1 of
                  Inl h \<Rightarrow> Inl h
                | Inr err2 \<Rightarrow> Inr (st\<lparr>stderr := err2\<rparr>))))"

section \<open>Reading a series file\<close>

text \<open>
  \<open>stream >> x\<close> for a number skips white space and then lets the \<open>num_get\<close> facet
  of the element type read the longest text that is a number: \<open>scan\<close> gives how many
  characters that is (0: there is none), \<open>conv\<close> the value of that text (\<open>None\<close>: it
  does not fit the type). The facet for \<open>float\<close> is a parameter of the model.
\<close>

record 'a num_get =
  scan :: "string \<Rightarrow> nat"
  conv :: "string \<Rightarrow> 'a option"

definition has_sign :: "string \<Rightarrow> bool" where
  "has_sign s = (case s of [] \<Rightarrow> False | c # cs \<Rightarrow> c = CHR ''-'' \<or> c = CHR ''+'')"

definition int_scan :: "string \<Rightarrow> nat" where
  "int_scan s =
     (let sg = (if has_sign s then 1 else 0);
          n = length (takeWhile isdigit (drop sg s))
      in if n = 0 then 0 else sg + n)"

definition int_conv :: "string \<Rightarrow> int option" where
  "int_conv t =
     (let v = decimal (takeWhile isdigit (drop (if has_sign t then 1 else 0) t));
          r = (if take 1 t = ''-'' then - v else v)
      in if INT_MIN \<le> r \<and> r \<le> INT_MAX then Some r else None)"

definition int_get :: "int num_get" where
  "int_get = \<lparr>scan = int_scan, conv = int_conv\<rparr>"

text \<open>One extraction from a stream in good state whose unread content is \<open>s\<close>: the
  value and the content left, or \<open>None\<close> when the extraction fails.\<close>

definition extract_num :: "'a num_get \<Rightarrow> string \<Rightarrow> ('a \<times> string) option" where
  "extract_num ng s =
     (let s1 = dropWhile isspace s
      in if s1 = [] then None
         else let n = scan ng s1
              in if n = 0 then None
                 else (case conv ng (take n s1) of
                         None \<Rightarrow> None
                       | Some v \<Rightarrow> Some (v, drop n s1)))"

lemma extract_num_shorter: "extract_num ng s = Some (v, r) \<Longrightarrow> length r < length s"
proof -
  assume a: "extract_num ng s = Some (v, r)"
  have le: "length (dropWhile isspace s) \<le> length s"
    by (rule length_dropWhile_le)
  from a have "dropWhile isspace s \<noteq> []" and "0 < scan ng (dropWhile isspace s)"
    and "r = drop (scan ng (dropWhile isspace s)) (dropWhile isspace s)"
    by (auto simp: extract_num_def Let_def split: if_splits option.splits)
  then have "length r < length (dropWhile isspace s)"
    by (cases "dropWhile isspace s") auto
  with le show ?thesis by simp
qed

text \<open>\<open>while (file >> tmp) count++;\<close> with \<open>int count\<close>.\<close>

function count_loop :: "'a num_get \<Rightarrow> string \<Rightarrow> int \<Rightarrow> undefined_behaviour + int" where
  "count_loop ng s count =
     (case extract_num ng s of
        None \<Rightarrow> Inr count
      | Some (v, r) \<Rightarrow>
          if count = INT_MAX then Inl Int_overflow else count_loop ng r (count + 1))"
  by pat_completeness auto
termination
  by (relation "measure (\<lambda>(ng, s, count). length s)") (auto dest: extract_num_shorter)

text \<open>\<open>while (file >> tmp) arr[idx++] = tmp;\<close>\<close>

function fill_loop :: "'a num_get \<Rightarrow> string \<Rightarrow> 'a array \<Rightarrow> nat \<Rightarrow> undefined_behaviour + 'a array" where
  "fill_loop ng s arr idx =
     (case extract_num ng s of
        None \<Rightarrow> Inr arr
      | Some (v, r) \<Rightarrow>
          if idx < length arr then fill_loop ng r (arr[idx := Some v]) (idx + 1)
          else Inl Out_of_bounds)"
  by pat_completeness auto
termination
  by (relation "measure (\<lambda>(ng, s, arr, idx). length s)") (auto dest: extract_num_shorter)

text \<open>Sequencing of steps that may end in undefined behaviour or in the end of the
  process.\<close>

definition and_then :: "'e + 'a \<Rightarrow> ('a \<Rightarrow> 'e + 'b) \<Rightarrow> 'e + 'b" where
  "and_then m k = (case m of Inl e \<Rightarrow> Inl e | Inr x \<Rightarrow> k x)"

section \<open>\<open>main\<close>\<close>

text \<open>A file system gives the content of the file at a path, \<open>None\<close> when it cannot
  be opened; the content stays the same during the run. A stream that is not open
  yields nothing: every extraction from it fails, as from an empty file.\<close>

definition readable :: "string option \<Rightarrow> string" where
  "readable f = (case f of None \<Rightarrow> [] | Some s \<Rightarrow> s)"

definition is_open :: "string option \<Rightarrow> bool" where
  "is_open f = (f \<noteq> None)"

definition open_checks :: "string option \<Rightarrow> string option \<Rightarrow> string option \<Rightarrow> string option \<Rightarrow>
    written list \<Rightarrow> halt + written list" where
  "open_checks q_file t_file s_file e_file err =
     and_then (conditionAssert (is_open q_file) ''cannot open lambda-file.'' True err) (\<lambda>err.
     and_then (conditionAssert (is_open t_file) ''cannot open tau-file'' True err) (\<lambda>err.
     and_then (conditionAssert (is_open s_file) ''cannot open scales-file.'' True err) (\<lambda>err.
     conditionAssert (is_open e_file) ''cannot open episode-file.'' True err)))"

record 'f series =
  tau_count :: int
  lambda_count :: int
  scale_count :: int
  episode_count :: int
  lambda_arr :: "'f array"
  tau_arr :: "int array"
  scale_arr :: "int array"
  episode_arr :: "int array"

text \<open>The two passes over the four files: the four counting loops, the rewinds, the
  four arrays declared with the counts as their lengths (no cell for the count 0), then
  the four filling loops, in the order of the source.\<close>

definition read_series :: "'f num_get \<Rightarrow> string \<Rightarrow> string \<Rightarrow> string \<Rightarrow> string \<Rightarrow>
    undefined_behaviour + 'f series" where
  "read_series float_get q t s e =
     and_then (count_loop float_get q 0) (\<lambda>lambda_count.
     and_then (count_loop int_get t 0) (\<lambda>tau_count.
     and_then (count_loop int_get s 0) (\<lambda>scale_count.
     and_then (count_loop int_get e 0) (\<lambda>episode_count.
     and_then (fill_loop float_get q (replicate (nat lambda_count) None) 0) (\<lambda>lambda_arr.
     and_then (fill_loop int_get t (replicate (nat tau_count) None) 0) (\<lambda>tau_arr.
     and_then (fill_loop int_get s (replicate (nat scale_count) None) 0) (\<lambda>scale_arr.
     and_then (fill_loop int_get e (replicate (nat episode_count) None) 0) (\<lambda>episode_arr.
     Inr \<lparr>tau_count = tau_count, lambda_count = lambda_count, scale_count = scale_count,
          episode_count = episode_count, lambda_arr = lambda_arr, tau_arr = tau_arr,
          scale_arr = scale_arr, episode_arr = episode_arr\<rparr>))))))))"

definition runDDM_call :: "DDMparams \<Rightarrow> 'f series \<Rightarrow> 'f runDDM_args" where
  "runDDM_call p sr =
     \<lparr>arg_file_in = file_in p, arg_file_out = file_out p,
      arg_tau_arr = tau_arr sr, arg_tau_count = tau_count sr,
      arg_lambda_arr = lambda_arr sr, arg_lambda_count = lambda_count sr,
      arg_scale_arr = scale_arr sr, arg_scale_count = scale_count sr,
      arg_x_off = x_off p, arg_y_off = y_off p,
      arg_episode_vector = episode_arr sr, arg_episode_count = episode_count sr,
      arg_frame_count = frame_count p, arg_frame_offset = frame_offset p,
      arg_chunk_frame_count = chunk_length p, arg_multistream = multi_stream p,
      arg_use_webcam = use_webcam p, arg_webcam_idx = webcam_idx p,
      arg_q_tolerance = q_tolerance p, arg_use_movie_file = use_movie_file p,
      arg_use_index_fps = use_index_fps p, arg_use_explicit_fps = use_explicit_fps p,
      arg_explicit_fps = explicit_fps p, arg_dump_accum_after = rolling_purge p,
      arg_benchmark_mode = benchmark_mode p,
      arg_enable_angle_analysis = enable_angle_analysis p, arg_angle_count = angle_count p\<rparr>"

text \<open>A run of the program: how it ends, and the calls of \<open>runDDM\<close> it made. The
  engine is taken to return.\<close>

record 'f run =
  ending :: halt
  engine_calls :: "'f runDDM_args list"

definition main :: "bool \<Rightarrow> (string \<Rightarrow> string option) \<Rightarrow> 'f num_get \<Rightarrow> string list \<Rightarrow> 'f run" where
  "main permute fs float_get args =
     (case parse_options permute args of
        Inl h \<Rightarrow> \<lparr>ending = h, engine_calls = []\<rparr>
      | Inr st \<Rightarrow>
          (let p = params st;
               q_file = fs (q_file_name p);
               t_file = fs (t_file_name p);
               s_file = fs (s_file_name p);
               e_file = fs (e_file_name p)
           in case open_checks q_file t_file s_file e_file (stderr st) of
                Inl h \<Rightarrow> \<lparr>ending = h, engine_calls = []\<rparr>
              | Inr err \<Rightarrow>
                  (case read_series float_get (readable q_file) (readable t_file)
                          (readable s_file) (readable e_file) of
                     Inl u \<Rightarrow> \<lparr>ending = Undefined u, engine_calls = []\<rparr>
                   | Inr sr \<Rightarrow> \<lparr>ending = Returned 0 err, engine_calls = [runDDM_call p sr]\<rparr>)))"

section \<open>Vocabulary of the properties\<close>

text \<open>The options that a complete scan of the argument vector finds, in order, each
  with its argument: what \<open>getopt\<close> returns call after call until it returns \<open>-1\<close>.\<close>

function getopt_trace :: "bool \<Rightarrow> string \<Rightarrow> getopt_state \<Rightarrow> (char \<times> string option) list" where
  "getopt_trace permute os gs =
     (case getopt permute os gs of
        (Done, gs') \<Rightarrow> []
      | (Opt c optarg, gs') \<Rightarrow> (c, optarg) # getopt_trace permute os gs')"
  by pat_completeness auto
termination
  by (relation "measure (\<lambda>(permute, os, gs). getopt_size gs)")
     (auto dest: getopt_size_less[OF sym])

definition options_of :: "bool \<Rightarrow> string list \<Rightarrow> (char \<times> string option) list" where
  "options_of permute args = getopt_trace permute optstring (getopt_init args)"

text \<open>The options that select the input source.\<close>

definition is_source :: "char \<Rightarrow> bool" where
  "is_source c = (c = CHR ''f'' \<or> c = CHR ''W'' \<or> c = CHR ''B'')"

text \<open>The exit status of the process; undefined behaviour has none.\<close>

definition exit_status :: "halt \<Rightarrow> int option" where
  "exit_status h = (case h of Returned n err \<Rightarrow> Some n | Exited n err \<Rightarrow> Some n | Undefined u \<Rightarrow> None)"

text \<open>A small file system for the examples: four series files, the last one empty.\<close>

definition example_fs :: "string \<Rightarrow> string option" where
  "example_fs p =
     (if p = ''q.txt'' then Some ''1 2 3''
      else if p = ''t.txt'' then Some (''1'' @ [CHR 0x0A] @ ''2'' @ [CHR 0x0A] @ ''4'' @ [CHR 0x0A] @ ''8'')
      else if p = ''s.txt'' then Some ''1 2''
      else if p = ''e.txt'' then Some []
      else None)"

text \<open>The values that successive extractions deliver from content \<open>s\<close>, up to the
  first extraction that fails.\<close>

function extracted :: "'a num_get \<Rightarrow> string \<Rightarrow> 'a list" where
  "extracted ng s =
     (case extract_num ng s of
        None \<Rightarrow> []
      | Some (v, r) \<Rightarrow> v # extracted ng r)"
  by pat_completeness auto
termination
  by (relation "measure (\<lambda>(ng, s). length s)") (auto dest: extract_num_shorter)

lemma length_dropWhile_less:
  "s \<noteq> [] \<Longrightarrow> \<not> P (hd s) \<Longrightarrow> length (dropWhile (\<lambda>c. \<not> P c) s) < length s"
  by (cases s) (auto simp: le_imp_less_Suc length_dropWhile_le)

text \<open>The white-space separated tokens of a text.\<close>

function split_ws :: "string \<Rightarrow> string list" where
  "split_ws s =
     (let s1 = dropWhile isspace s
      in if s1 = [] then []
         else takeWhile (\<lambda>c. \<not> isspace c) s1 # split_ws (dropWhile (\<lambda>c. \<not> isspace c) s1))"
  by pat_completeness auto
termination
proof (relation "measure length", goal_cases)
  case 1
  show ?case by simp
next
  case (2 s s1)
  then have "\<not> isspace (hd s1)"
    using hd_dropWhile[of isspace s] by simp
  with 2 have "length (dropWhile (\<lambda>c. \<not> isspace c) s1) < length s1"
    by (intro length_dropWhile_less) simp_all
  also have "length s1 \<le> length s" using 2 by (simp add: length_dropWhile_le)
  finally show ?case by simp
qed

text \<open>A token is numeric for a facet, with value \<open>v\<close>, when the facet reads all of it,
  whatever white space follows, and converts it to \<open>v\<close>.\<close>

definition numeric_token :: "'a num_get \<Rightarrow> string \<Rightarrow> 'a \<Rightarrow> bool" where
  "numeric_token ng t v =
     (conv ng t = Some v \<and> (\<forall>r. r = [] \<or> isspace (hd r) \<longrightarrow> scan ng (t @ r) = length t))"

text \<open>The state in which a complete scan ends, and the arguments it leaves unread:
  the non-option arguments and whatever follows \<open>--\<close>.\<close>

function scan_end :: "bool \<Rightarrow> string \<Rightarrow> getopt_state \<Rightarrow> getopt_state" where
  "scan_end permute os gs =
     (case getopt permute os gs of
        (Done, gs') \<Rightarrow> gs'
      | (Opt c optarg, gs') \<Rightarrow> scan_end permute os gs')"
  by pat_completeness auto
termination
  by (relation "measure (\<lambda>(permute, os, gs). getopt_size gs)")
     (auto dest: getopt_size_less[OF sym])

definition positional :: "bool \<Rightarrow> string list \<Rightarrow> string list" where
  "positional permute args =
     (let gs = scan_end permute optstring (getopt_init args) in skipped gs @ rest gs)"

text \<open>How many of the options found select an input source.\<close>

definition source_options :: "(char \<times> string option) list \<Rightarrow> nat" where
  "source_options tr = length (filter (\<lambda>x. is_source (fst x)) tr)"

text \<open>A scan that meets an unrecognised option or a missing option argument (for both
  \<open>getopt\<close> returns \<open>?\<close>), or that leaves arguments unread without meeting \<open>-Z\<close>.\<close>

definition unexpected :: "bool \<Rightarrow> getopt_state \<Rightarrow> bool" where
  "unexpected permute gs =
     (CHR ''?'' \<in> fst ` set (getopt_trace permute optstring gs) \<or>
      ((skipped (scan_end permute optstring gs) \<noteq> [] \<or> rest (scan_end permute optstring gs) \<noteq> []) \<and>
       CHR ''Z'' \<notin> fst ` set (getopt_trace permute optstring gs)))"

text \<open>The series that the two passes deliver for four file contents.\<close>

definition loaded :: "'f num_get \<Rightarrow> string \<Rightarrow> string \<Rightarrow> string \<Rightarrow> string \<Rightarrow> 'f series" where
  "loaded float_get q t s e =
     \<lparr>tau_count = int (length (extracted int_get t)),
      lambda_count = int (length (extracted float_get q)),
      scale_count = int (length (extracted int_get s)),
      episode_count = int (length (extracted int_get e)),
      lambda_arr = map Some (extracted float_get q),
      tau_arr = map Some (extracted int_get t),
      scale_arr = map Some (extracted int_get s),
      episode_arr = map Some (extracted int_get e)\<rparr>"

section \<open>What \<open>getopt\<close> returns and what the \<open>switch\<close> does with it\<close>

lemma short_option_returns:
  assumes "short_option os c cs gs = (Opt d a, gs')"
  shows "(d = CHR ''?'' \<and> a = None) \<or>
         (d = c \<and> (\<exists>k. opt_kind os c = Some k \<and> (k = Required_arg \<longrightarrow> a \<noteq> None)
                       \<and> (k = No_arg \<longrightarrow> a = None)))"
  using assms
  by (auto simp: short_option_def split: option.splits arg_kind.splits if_splits list.splits)

lemma getopt_returns:
  assumes "getopt permute os gs = (Opt d a, gs')"
  shows "(d = CHR ''?'' \<and> a = None) \<or>
         (\<exists>k. opt_kind os d = Some k \<and> (k = Required_arg \<longrightarrow> a \<noteq> None)
                       \<and> (k = No_arg \<longrightarrow> a = None))"
proof (cases "nextchar gs")
  case (Cons x xs)
  with assms have "short_option os x xs gs = (Opt d a, gs')"
    by (simp add: getopt_def)
  from short_option_returns[OF this] show ?thesis by auto
next
  case Nil
  with assms have "next_element os (skip_nonoptions permute gs) = (Opt d a, gs')"
    by (simp add: getopt_def)
  then obtain x xs g where "short_option os x xs g = (Opt d a, gs')"
    by (auto simp: next_element_def split: list.splits if_splits)
  from short_option_returns[OF this] show ?thesis by auto
qed

lemma opt_kind_optstring:
  "opt_kind optstring c =
     (if c \<in> set ''hIvZMBA'' then Some No_arg
      else if c \<in> set ''oNsxyQTSEftCGFn'' then Some Required_arg
      else if c = CHR ''W'' then Some Optional_arg
      else None)"
  by (simp add: opt_kind_def optstring_def)

lemma getopt_trace_Opt:
  "getopt permute os gs = (Opt c a, gs') \<Longrightarrow>
     getopt_trace permute os gs = (c, a) # getopt_trace permute os gs'"
  by (subst getopt_trace.simps) simp

lemma getopt_trace_Done:
  "getopt permute os gs = (Done, gs') \<Longrightarrow> getopt_trace permute os gs = []"
  by (subst getopt_trace.simps) simp


lemma switch_body_other:
  "c \<notin> set ''?hoNxyQTSEIsfWBvtCMGFAn'' \<Longrightarrow> switch_body c a st = Break"
  by (simp add: switch_body_def)

lemma switch_chars:
  "c \<in> set ''?hoNxyQTSEIsfWBvtCMGFAn'' \<Longrightarrow>
     c = CHR ''?'' \<or> c = CHR ''h'' \<or> c = CHR ''o'' \<or> c = CHR ''N'' \<or> c = CHR ''x''
    \<or> c = CHR ''y'' \<or> c = CHR ''Q'' \<or> c = CHR ''T'' \<or> c = CHR ''S'' \<or> c = CHR ''E''
    \<or> c = CHR ''I'' \<or> c = CHR ''s'' \<or> c = CHR ''f'' \<or> c = CHR ''W'' \<or> c = CHR ''B''
    \<or> c = CHR ''v'' \<or> c = CHR ''t'' \<or> c = CHR ''C'' \<or> c = CHR ''M'' \<or> c = CHR ''G''
    \<or> c = CHR ''F'' \<or> c = CHR ''A'' \<or> c = CHR ''n''"
  by simp

lemma switch_body_Continue:
  assumes "switch_body c a st = Continue st'"
  shows "stderr st' = stderr st \<and> multi_stream (params st') = multi_stream (params st) \<and>
         input_specified st' =
           (input_specified st \<or> c = CHR ''f'' \<or> c = CHR ''W'' \<or> c = CHR ''B'')"
proof (cases "c \<in> set ''?hoNxyQTSEIsfWBvtCMGFAn''")
  case True
  show ?thesis
    apply (insert assms switch_chars[OF True])
    apply (elim disjE)
    apply (simp_all add: switch_body_def with_optarg_def set_param_def conditionAssert_def
          split: option.splits if_splits)
    apply auto
    done
next
  case False
  from switch_body_other[OF this] assms show ?thesis by simp
qed

lemma switch_body_Halt:
  assumes "switch_body c a st = Halt h"
  shows "h = Returned (- 1) (stderr st @ [Help_text]) \<or> (h = Undefined Null_optarg \<and> a = None) \<or>
     ((c = CHR ''f'' \<or> c = CHR ''W'') \<and> input_specified st \<and>
       h = Exited EXIT_FAILURE (stderr st @ [Line (''[Error] '' @ source_conflict @ [CHR 0x0A])]))"
proof (cases "c \<in> set ''?hoNxyQTSEIsfWBvtCMGFAn''")
  case True
  show ?thesis
    apply (insert assms switch_chars[OF True])
    apply (elim disjE)
    apply (simp_all add: switch_body_def with_optarg_def set_param_def conditionAssert_def
          printHelp_def split: option.splits if_splits)
    done
next
  case False
  from switch_body_other[OF this] assms show ?thesis by simp
qed

lemma switch_body_defined:
  assumes "getopt permute optstring gs = (Opt c a, gs')"
  shows "switch_body c a st \<noteq> Halt (Undefined u)"
proof
  assume h: "switch_body c a st = Halt (Undefined u)"
  from switch_body_Halt[OF h] have a: "a = None" by auto
  from getopt_returns[OF assms] a
  have "c = CHR ''?'' \<or> c \<in> set ''hIvZMBAW''"
    by (auto simp: opt_kind_optstring split: if_splits)
  then have "c = CHR ''?'' \<or> c = CHR ''h'' \<or> c = CHR ''I'' \<or> c = CHR ''v'' \<or> c = CHR ''Z''
      \<or> c = CHR ''M'' \<or> c = CHR ''B'' \<or> c = CHR ''A'' \<or> c = CHR ''W''"
    by simp
  note d = this
  show False
    apply (insert h d)
    apply (elim disjE)
    apply (simp_all add: switch_body_def with_optarg_def set_param_def conditionAssert_def
          split: option.splits if_splits)
    done
qed

lemma switch_body_Break:
  assumes "getopt permute optstring gs = (Opt c a, gs')" and "switch_body c a st = Break"
  shows "c = CHR ''Z''"
proof -
  from getopt_returns[OF assms(1)]
  have "c = CHR ''Z'' \<or> c \<in> set ''?hoNxyQTSEIsfWBvtCMGFAn''"
    by (auto simp: opt_kind_optstring split: if_splits)
  then have "c = CHR ''Z'' \<or> c = CHR ''?'' \<or> c = CHR ''h'' \<or> c = CHR ''o'' \<or> c = CHR ''N'' \<or> c = CHR ''x''
    \<or> c = CHR ''y'' \<or> c = CHR ''Q'' \<or> c = CHR ''T'' \<or> c = CHR ''S'' \<or> c = CHR ''E''
    \<or> c = CHR ''I'' \<or> c = CHR ''s'' \<or> c = CHR ''f'' \<or> c = CHR ''W'' \<or> c = CHR ''B''
    \<or> c = CHR ''v'' \<or> c = CHR ''t'' \<or> c = CHR ''C'' \<or> c = CHR ''M'' \<or> c = CHR ''G''
    \<or> c = CHR ''F'' \<or> c = CHR ''A'' \<or> c = CHR ''n''"
    by simp
  note d = this
  show ?thesis
    apply (insert assms(2) d)
    apply (elim disjE)
    apply (simp_all add: switch_body_def with_optarg_def set_param_def conditionAssert_def
          split: option.splits if_splits)
    done
qed

declare option_loop.simps [simp del]

declare getopt_trace.simps [simp del]

lemma option_loop_Done:
  "getopt permute optstring gs = (Done, gs') \<Longrightarrow> option_loop permute st gs = Inr (st, Done, gs')"
  by (subst option_loop.simps) simp

lemma option_loop_Continue:
  "getopt permute optstring gs = (Opt c a, gs') \<Longrightarrow> switch_body c a st = Continue st' \<Longrightarrow>
     option_loop permute st gs = option_loop permute st' gs'"
  by (subst option_loop.simps) simp

lemma option_loop_Break:
  "getopt permute optstring gs = (Opt c a, gs') \<Longrightarrow> switch_body c a st = Break \<Longrightarrow>
     option_loop permute st gs = Inr (st, Opt c a, gs')"
  by (subst option_loop.simps) simp

lemma option_loop_Halt:
  "getopt permute optstring gs = (Opt c a, gs') \<Longrightarrow> switch_body c a st = Halt h \<Longrightarrow>
     option_loop permute st gs = Inl h"
  by (subst option_loop.simps) simp

lemma option_loop_no_source:
  assumes "\<forall>x \<in> set (getopt_trace permute optstring gs). \<not> is_source (fst x)"
    and "\<not> input_specified st"
  shows "(\<exists>st' r gs'. option_loop permute st gs = Inr (st', r, gs') \<and> \<not> input_specified st'
            \<and> stderr st' = stderr st)
         \<or> option_loop permute st gs = Inl (Returned (- 1) (stderr st @ [Help_text]))"
  using assms
proof (induction permute st gs rule: option_loop.induct)
  case (1 permute st gs)
  obtain r gs' where g: "getopt permute optstring gs = (r, gs')"
    by (cases "getopt permute optstring gs")
  show ?case
  proof (cases r)
    case Done
    with g "1.prems" show ?thesis by (simp add: option_loop_Done)
  next
    case (Opt c a)
    with g have g': "getopt permute optstring gs = (Opt c a, gs')" by simp
    from "1.prems"(1) have c: "\<not> is_source c"
      and tr: "\<forall>x \<in> set (getopt_trace permute optstring gs'). \<not> is_source (fst x)"
      by (simp_all add: getopt_trace_Opt[OF g'])
    show ?thesis
    proof (cases "switch_body c a st")
      case (Continue st')
      from switch_body_Continue[OF Continue] c "1.prems"(2)
      have st': "\<not> input_specified st'" "stderr st' = stderr st"
        by (simp_all add: is_source_def)
      from "1.IH"[OF g'[symmetric] refl Continue tr st'(1)] st'(2)
      show ?thesis by (simp add: option_loop_Continue[OF g' Continue])
    next
      case Break
      with "1.prems" show ?thesis by (simp add: option_loop_Break[OF g' Break])
    next
      case (Halt h)
      from switch_body_Halt[OF Halt] switch_body_defined[OF g', of st] Halt "1.prems"(2)
      have "h = Returned (- 1) (stderr st @ [Help_text])" by auto
      then show ?thesis by (simp add: option_loop_Halt[OF g' Halt])
    qed
  qed
qed

section \<open>No input source\<close>

text \<open>
  C8. When a scan of the argument vector finds none of the options \<open>-f\<close>, \<open>-W\<close>,
  \<open>-B\<close>, option parsing ends the process with a non-zero status: with the help text
  and \<open>return -1\<close>, or through a fatal \<open>conditionAssert\<close> (unexpected option, or
  \<open>Must specify input.\<close>). The run is that ending whatever the file system holds, and
  the engine is not called.
\<close>

theorem no_input_source_is_fatal:
  assumes "\<forall>x \<in> set (options_of permute args). \<not> is_source (fst x)"
  shows "\<exists>h. parse_options permute args = Inl h \<and>
           h \<in> {Returned (- 1) [Help_text],
                 Exited EXIT_FAILURE
                   [Help_text, Line (''[Error] An unexpected option was found.'' @ [CHR 0x0A])],
                 Exited EXIT_FAILURE [Line (''[Error] Must specify input.'' @ [CHR 0x0A])]} \<and>
           (\<exists>n. exit_status h = Some n \<and> n \<noteq> 0) \<and>
           main permute fs float_get args = \<lparr>ending = h, engine_calls = []\<rparr>"
proof -
  have init: "\<not> input_specified main_init" "stderr main_init = []"
    by (simp_all add: main_init_def)
  from assms have "\<forall>x \<in> set (getopt_trace permute optstring (getopt_init args)). \<not> is_source (fst x)"
    by (simp add: options_of_def)
  from option_loop_no_source[OF this init(1)]
  show ?thesis
  proof
    assume "\<exists>st' r gs'. option_loop permute main_init (getopt_init args) = Inr (st', r, gs')
              \<and> \<not> input_specified st' \<and> stderr st' = stderr main_init"
    then obtain st' r gs' where
      l: "option_loop permute main_init (getopt_init args) = Inr (st', r, gs')"
      and i: "\<not> input_specified st'" and e: "stderr st' = []"
      using init(2) by auto
    show ?thesis
      using l i e
      by (cases "optind_neq_argc r gs'")
         (simp_all add: parse_options_def main_def conditionAssert_def printHelp_def
            exit_status_def EXIT_FAILURE_def)
  next
    assume "option_loop permute main_init (getopt_init args)
              = Inl (Returned (- 1) (stderr main_init @ [Help_text]))"
    then show ?thesis
      by (simp add: parse_options_def main_def init exit_status_def)
  qed
qed

theorem no_input_source_is_fatal_witness:
  "map fst (options_of True [''-o'', ''out.bin'', ''-N'', ''10'']) = ''oN'' \<and>
   main True example_fs int_get [''-o'', ''out.bin'', ''-N'', ''10'']
     = \<lparr>ending = Exited EXIT_FAILURE [Line (''[Error] Must specify input.'' @ [CHR 0x0A])],
        engine_calls = []\<rparr>"
proof -
  have h: "\<forall>x \<in> set (options_of True [''-o'', ''out.bin'', ''-N'', ''10'']). \<not> is_source (fst x)"
    by code_simp
  have o: "map fst (options_of True [''-o'', ''out.bin'', ''-N'', ''10'']) = ''oN''"
    by code_simp
  have p: "parse_options True [''-o'', ''out.bin'', ''-N'', ''10'']
             = Inl (Exited EXIT_FAILURE [Line (''[Error] Must specify input.'' @ [CHR 0x0A])])"
    by code_simp
  from no_input_source_is_fatal[OF h, of example_fs int_get] p o show ?thesis
    by auto
qed

section \<open>The two passes over a series file\<close>

declare extracted.simps [simp del]

declare split_ws.simps [simp del]

declare count_loop.simps [simp del]

declare fill_loop.simps [simp del]

lemma count_loop_eq:
  "count + int (length (extracted ng s)) \<le> INT_MAX \<Longrightarrow>
     count_loop ng s count = Inr (count + int (length (extracted ng s)))"
proof (induction ng s count rule: count_loop.induct)
  case (1 ng s count)
  show ?case
  proof (cases "extract_num ng s")
    case None
    then have "extracted ng s = []"
      by (subst extracted.simps) simp
    with None show ?thesis
      by (subst count_loop.simps) simp
  next
    case (Some a)
    obtain v r where a: "a = (v, r)" by (cases a)
    have e: "extracted ng s = v # extracted ng r"
      using Some a by (subst extracted.simps) simp
    with "1.prems" have ne: "count \<noteq> INT_MAX" and
      b: "count + 1 + int (length (extracted ng r)) \<le> INT_MAX" by simp_all
    from "1.IH"[OF Some a[symmetric] ne b] Some a ne e show ?thesis
      by (subst count_loop.simps) simp
  qed
qed

lemma fill_loop_eq:
  "idx + length (extracted ng s) \<le> length arr \<Longrightarrow>
     fill_loop ng s arr idx =
       Inr (take idx arr @ map Some (extracted ng s) @ drop (idx + length (extracted ng s)) arr)"
proof (induction ng s arr idx rule: fill_loop.induct)
  case (1 ng s arr idx)
  show ?case
  proof (cases "extract_num ng s")
    case None
    then have "extracted ng s = []"
      by (subst extracted.simps) simp
    with None show ?thesis
      by (subst fill_loop.simps) simp
  next
    case (Some a)
    obtain v r where a: "a = (v, r)" by (cases a)
    have e: "extracted ng s = v # extracted ng r"
      using Some a by (subst extracted.simps) simp
    with "1.prems" have lt: "idx < length arr" and
      b: "idx + 1 + length (extracted ng r) \<le> length (arr[idx := Some v])" by simp_all
    have t: "take (idx + 1) (arr[idx := Some v]) = take idx arr @ [Some v]"
      using lt by (simp add: take_Suc_conv_app_nth)
    from "1.IH"[OF Some a[symmetric] lt b] Some a lt e t show ?thesis
      by (subst fill_loop.simps) simp
  qed
qed

lemma extract_num_skip:
  "\<forall>c \<in> set w. isspace c \<Longrightarrow> extract_num ng (w @ s) = extract_num ng s"
  by (simp add: extract_num_def dropWhile_append2)

lemma extract_num_token:
  assumes "numeric_token ng t v" and "t \<noteq> []" and "\<forall>c \<in> set w. isspace c"
    and "\<not> isspace (hd t)" and "r = [] \<or> isspace (hd r)"
  shows "extract_num ng (w @ t @ r) = Some (v, r)"
proof -
  from assms(1,5) have "scan ng (t @ r) = length t" and "conv ng t = Some v"
    by (auto simp: numeric_token_def)
  moreover from assms(2,4) have "dropWhile isspace (t @ r) = t @ r"
    by (cases t) auto
  ultimately have "extract_num ng (t @ r) = Some (v, r)"
    using assms(2) by (simp add: extract_num_def)
  then show ?thesis by (simp add: extract_num_skip[OF assms(3)])
qed

lemma hd_takeWhile: "takeWhile P xs \<noteq> [] \<Longrightarrow> P (hd (takeWhile P xs))"
  by (cases xs) (auto split: if_splits)

lemma split_parts:
  obtains w t r where "s = w @ t @ r" and "\<forall>c \<in> set w. isspace c"
    and "t = takeWhile (\<lambda>c. \<not> isspace c) (dropWhile isspace s)"
    and "r = dropWhile (\<lambda>c. \<not> isspace c) (dropWhile isspace s)"
    and "t = [] \<longleftrightarrow> dropWhile isspace s = []"
    and "t \<noteq> [] \<longrightarrow> \<not> isspace (hd t)"
    and "r = [] \<or> isspace (hd r)"
proof -
  let ?w = "takeWhile isspace s" and ?s1 = "dropWhile isspace s"
  let ?t = "takeWhile (\<lambda>c. \<not> isspace c) ?s1" and ?r = "dropWhile (\<lambda>c. \<not> isspace c) ?s1"
  have 1: "s = ?w @ ?t @ ?r" by simp
  have 2: "\<forall>c \<in> set ?w. isspace c" by (auto dest: set_takeWhileD)
  have 3: "?t = [] \<longleftrightarrow> ?s1 = []"
    using hd_dropWhile[of isspace s] by (auto simp: takeWhile_eq_Nil_iff)
  have 4: "?t \<noteq> [] \<longrightarrow> \<not> isspace (hd ?t)"
    using hd_takeWhile[of "\<lambda>c. \<not> isspace c" ?s1] by simp
  have 5: "?r = [] \<or> isspace (hd ?r)"
    using hd_dropWhile[of "\<lambda>c. \<not> isspace c" ?s1] by auto
  from that[OF 1 2 refl refl 3 4 5] show ?thesis .
qed

lemma extracted_tokens:
  assumes "list_all2 (numeric_token ng) (split_ws pre) vs"
    and "bad = [] \<or> pre = [] \<or> isspace (last pre)"
  shows "extracted ng (pre @ bad) = vs @ extracted ng bad"
  using assms
proof (induction pre arbitrary: vs rule: split_ws.induct)
  case (1 s)
  obtain w t r where s: "s = w @ t @ r" and w: "\<forall>c \<in> set w. isspace c"
    and t: "t = takeWhile (\<lambda>c. \<not> isspace c) (dropWhile isspace s)"
    and r: "r = dropWhile (\<lambda>c. \<not> isspace c) (dropWhile isspace s)"
    and tn: "t = [] \<longleftrightarrow> dropWhile isspace s = []"
    and th: "t \<noteq> [] \<longrightarrow> \<not> isspace (hd t)"
    and rh: "r = [] \<or> isspace (hd r)"
    by (rule split_parts)
  show ?case
  proof (cases "dropWhile isspace s = []")
    case True
    then have sp: "split_ws s = []" by (subst split_ws.simps) simp
    from True have "\<forall>c \<in> set s. isspace c"
      by (simp add: dropWhile_eq_Nil_conv)
    then have "extract_num ng (s @ bad) = extract_num ng bad"
      by (simp add: extract_num_skip)
    then have "extracted ng (s @ bad) = extracted ng bad"
      by (subst extracted.simps, subst (2) extracted.simps) simp
    with sp "1.prems"(1) show ?thesis by simp
  next
    case False
    then have sp: "split_ws s = t # split_ws r"
      by (subst split_ws.simps) (simp add: t r Let_def)
    with "1.prems"(1) obtain v vs' where vs: "vs = v # vs'" and nt: "numeric_token ng t v"
      and rest: "list_all2 (numeric_token ng) (split_ws r) vs'"
      by (auto simp: list_all2_Cons1)
    from False tn th have t1: "t \<noteq> []" "\<not> isspace (hd t)" by simp_all
    have rb: "bad = [] \<or> r = [] \<or> isspace (last r)"
    proof (cases "r = []")
      case False
      with s have "last s = last r" by simp
      moreover from False s have "s \<noteq> []" by simp
      ultimately show ?thesis using "1.prems"(2) by auto
    qed simp
    have hb: "r @ bad = [] \<or> isspace (hd (r @ bad))"
    proof (cases "r = []")
      case True
      have ne: "s \<noteq> []" using s t1 by simp
      from True s have "last s = last t" using t1 by simp
      moreover have "\<not> isspace (last t)"
        using t1(1) set_takeWhileD[of "last t" "\<lambda>c. \<not> isspace c" "dropWhile isspace s"] t
        by (metis last_in_set)
      ultimately have "bad = []" using "1.prems"(2) ne by auto
      with True show ?thesis by simp
    next
      case False
      with rh show ?thesis by simp
    qed
    from extract_num_token[OF nt t1(1) w t1(2) hb] s
    have "extract_num ng (s @ bad) = Some (v, r @ bad)" by simp
    then have "extracted ng (s @ bad) = v # extracted ng (r @ bad)"
      by (subst extracted.simps) simp
    moreover from "1.IH"[OF refl False, folded r, OF rest rb]
    have "extracted ng (r @ bad) = vs' @ extracted ng bad" .
    ultimately show ?thesis using vs by simp
  qed
qed

lemma isspace_not_isdigit: "isspace c \<Longrightarrow> \<not> isdigit c"
  by (auto simp: isspace_def isdigit_def)

lemma int_numeric_token:
  assumes "int_conv t = Some v"
    and "drop (if has_sign t then 1 else 0) t \<noteq> []"
    and "\<forall>c \<in> set (drop (if has_sign t then 1 else 0) t). isdigit c"
  shows "numeric_token int_get t v"
proof -
  define sg :: nat where "sg = (if has_sign t then 1 else 0)"
  define ds where "ds = drop sg t"
  from assms(2) have tn: "t \<noteq> []" by auto
  have len: "sg + length ds = length t"
    using assms(2) by (auto simp: ds_def sg_def split: if_splits)
  have "int_scan (t @ r) = length t" if r: "r = [] \<or> isspace (hd r)" for r
  proof -
    have hs: "has_sign (t @ r) = has_sign t"
      using tn by (cases t) (simp_all add: has_sign_def)
    have dr: "drop sg (t @ r) = ds @ r"
      using len by (simp add: ds_def)
    have "takeWhile isdigit r = []"
      using r by (cases r) (auto simp: isspace_not_isdigit)
    with assms(3) have tw: "takeWhile isdigit (ds @ r) = ds"
      by (simp add: takeWhile_append2 ds_def sg_def)
    from assms(2) have "ds \<noteq> []" by (simp add: ds_def sg_def)
    with hs dr tw len show ?thesis
      by (simp add: int_scan_def Let_def sg_def[symmetric])
  qed
  with assms(1) show ?thesis
    by (simp add: numeric_token_def int_get_def)
qed

lemma extracted_None: "extract_num ng s = None \<Longrightarrow> extracted ng s = []"
  by (subst extracted.simps) simp

lemma extracted_Some: "extract_num ng s = Some (v, r) \<Longrightarrow> extracted ng s = v # extracted ng r"
  by (subst extracted.simps) simp

lemma read_series_eq:
  assumes "int (length (extracted float_get q)) \<le> INT_MAX"
    and "int (length (extracted int_get t)) \<le> INT_MAX"
    and "int (length (extracted int_get s)) \<le> INT_MAX"
    and "int (length (extracted int_get e)) \<le> INT_MAX"
  shows "read_series float_get q t s e = Inr (loaded float_get q t s e)"
proof -
  have c: "count_loop ng x 0 = Inr (int (length (extracted ng x)))"
    if "int (length (extracted ng x)) \<le> INT_MAX" for ng :: "'b num_get" and x
    using count_loop_eq[of 0 ng x] that by simp
  have f: "fill_loop ng x (replicate (length (extracted ng x)) None) 0
             = Inr (map Some (extracted ng x))" for ng :: "'b num_get" and x
    using fill_loop_eq[of 0 ng x "replicate (length (extracted ng x)) None"] by simp
  show ?thesis
    by (simp add: read_series_def and_then_def loaded_def c[OF assms(1)] c[OF assms(2)]
          c[OF assms(3)] c[OF assms(4)] f)
qed

section \<open>Runs that show where the program departs from its description\<close>

text \<open>
  C1. The scenario \<open>-W -B -o out.bin -N 10 -Q q.txt -T t.txt -S s.txt -E e.txt\<close>: the
  case for \<open>-B\<close> does not test \<open>input_specified\<close>, so the run is not ended; the
  engine is called with the webcam flag and the benchmark flag both set and the
  process returns 0. With the two options in the other order the test in the case for
  \<open>-W\<close> ends the process.
\<close>

theorem webcam_then_benchmark_is_accepted:
  "main True example_fs int_get
     [''-W'', ''-B'', ''-o'', ''out.bin'', ''-N'', ''10'', ''-Q'', ''q.txt'', ''-T'', ''t.txt'',
      ''-S'', ''s.txt'', ''-E'', ''e.txt'']
   = \<lparr>ending = Returned 0 [],
      engine_calls =
        [runDDM_call
           (params_init\<lparr>file_out := ''out.bin'', q_file_name := ''q.txt'', t_file_name := ''t.txt'',
              s_file_name := ''s.txt'', e_file_name := ''e.txt'', frame_count := 10,
              use_webcam := True, benchmark_mode := True\<rparr>)
           \<lparr>tau_count = 4, lambda_count = 3, scale_count = 2, episode_count = 0,
            lambda_arr = [Some 1, Some 2, Some 3], tau_arr = [Some 1, Some 2, Some 4, Some 8],
            scale_arr = [Some 1, Some 2], episode_arr = []\<rparr>]\<rparr> \<and>
   main True example_fs int_get
     [''-B'', ''-W'', ''-o'', ''out.bin'', ''-N'', ''10'', ''-Q'', ''q.txt'', ''-T'', ''t.txt'',
      ''-S'', ''s.txt'', ''-E'', ''e.txt'']
   = \<lparr>ending = Exited EXIT_FAILURE [Line (''[Error] '' @ source_conflict @ [CHR 0x0A])],
      engine_calls = []\<rparr>"
  by code_simp

text \<open>
  C2. The \<open>switch\<close> has no case for \<open>Z\<close>: the character leaves the \<open>switch\<close> and
  reaches the \<open>break\<close>, which ends option parsing with \<open>multi_stream\<close> as it was. With
  \<open>-Z\<close> as the last argument the engine is called with multi-stream execution on;
  with anything behind \<open>-Z\<close> the process ends with the help text and a fatal error.
\<close>

theorem Z_leaves_multi_stream_on:
  "map arg_multistream
     (engine_calls (main True example_fs int_get
        [''-B'', ''-o'', ''out.bin'', ''-N'', ''10'', ''-Q'', ''q.txt'', ''-T'', ''t.txt'',
         ''-S'', ''s.txt'', ''-E'', ''e.txt'', ''-Z''])) = [True] \<and>
   main True example_fs int_get
     [''-Z'', ''-B'', ''-o'', ''out.bin'', ''-N'', ''10'', ''-Q'', ''q.txt'', ''-T'', ''t.txt'',
      ''-S'', ''s.txt'', ''-E'', ''e.txt'']
   = \<lparr>ending = Exited EXIT_FAILURE
        [Help_text, Line (''[Error] An unexpected option was found.'' @ [CHR 0x0A])],
      engine_calls = []\<rparr>"
  by code_simp

text \<open>
  C10. The run \<open>-f video.mp4 -B -Q q.txt -T t.txt -S s.txt -E e.txt\<close> sets two input
  sources, yet no check ends it: the engine is called once, with the input path and the
  benchmark flag both set. The options \<open>-o\<close> and \<open>-N\<close> are absent and nothing
  detects it: the output path passed is empty and the frame count passed is 0.
\<close>

theorem file_then_benchmark_without_frame_count:
  "main True example_fs int_get
     [''-f'', ''video.mp4'', ''-B'', ''-Q'', ''q.txt'', ''-T'', ''t.txt'', ''-S'', ''s.txt'',
      ''-E'', ''e.txt'']
   = \<lparr>ending = Returned 0 [],
      engine_calls =
        [runDDM_call
           (params_init\<lparr>file_in := ''video.mp4'', q_file_name := ''q.txt'',
              t_file_name := ''t.txt'', s_file_name := ''s.txt'', e_file_name := ''e.txt'',
              benchmark_mode := True\<rparr>)
           \<lparr>tau_count = 4, lambda_count = 3, scale_count = 2, episode_count = 0,
            lambda_arr = [Some 1, Some 2, Some 3], tau_arr = [Some 1, Some 2, Some 4, Some 8],
            scale_arr = [Some 1, Some 2], episode_arr = []\<rparr>]\<rparr> \<and>
   frame_count params_init = 0"
  by code_simp

section \<open>The webcam index\<close>

lemma getopt_webcam:
  assumes "nextchar gs = []" and "rest gs = (''-W'' @ idx) # as"
  shows "getopt permute optstring gs
           = (Opt CHR ''W'' (if idx = [] then None else Some idx), gs\<lparr>rest := as\<rparr>)"
proof -
  have n: "\<not> nonoption (''-W'' @ idx)" by (simp add: nonoption_def)
  with assms(2) have "skip_nonoptions permute gs = gs"
    by (simp add: skip_nonoptions_def)
  moreover have "gs\<lparr>rest := as, nextchar := []\<rparr> = gs\<lparr>rest := as\<rparr>"
    using assms(1) by (cases gs) simp
  ultimately show ?thesis using assms n
    by (simp add: getopt_def next_element_def short_option_def opt_kind_optstring)
qed

text \<open>
  C9, as the code has it. The option \<open>W\<close> takes an optional argument (\<open>W::\<close>), which
  \<open>getopt\<close> reads only from the text attached to the flag in the same argument. When
  the scan reaches an argument \<open>-W\<close> followed by text \<open>idx\<close> and no input source is set
  yet, the webcam flag is set, the index becomes \<open>atoi idx\<close> when \<open>idx\<close> is not empty
  and keeps its value otherwise, and the scan goes on with the next argument, which is
  not consumed. For the argument vector that holds only \<open>-W\<close> and \<open>idx\<close> in one
  argument, parsing completes with the index \<open>atoi idx\<close>, or the default 0 for \<open>-W\<close>
  alone.
\<close>

theorem webcam_index_is_attached:
  assumes "nextchar gs = []" and "rest gs = (''-W'' @ idx) # as" and "\<not> input_specified st"
  shows "option_loop permute st gs =
           option_loop permute
             (st\<lparr>params := (params st)\<lparr>use_webcam := True,
                     webcam_idx := (if idx = [] then webcam_idx (params st) else atoi idx)\<rparr>,
                 input_specified := True\<rparr>)
             (gs\<lparr>rest := as\<rparr>) \<and>
         parse_options permute [''-W'' @ idx] =
           Inr (main_init\<lparr>params := params_init\<lparr>use_webcam := True,
                     webcam_idx := (if idx = [] then 0 else atoi idx)\<rparr>,
                  input_specified := True\<rparr>)"
proof -
  have step: "option_loop permute st gs =
           option_loop permute
             (st\<lparr>params := (params st)\<lparr>use_webcam := True,
                     webcam_idx := (if idx = [] then webcam_idx (params st) else atoi idx)\<rparr>,
                 input_specified := True\<rparr>)
             (gs\<lparr>rest := as\<rparr>)"
    if "nextchar gs = []" and "rest gs = (''-W'' @ idx) # as" and "\<not> input_specified st"
    for st gs as
  proof -
    have "switch_body CHR ''W'' (if idx = [] then None else Some idx) st =
      Continue (st\<lparr>params := (params st)\<lparr>use_webcam := True,
                     webcam_idx := (if idx = [] then webcam_idx (params st) else atoi idx)\<rparr>,
                 input_specified := True\<rparr>)"
      using that(3) by (simp add: switch_body_def conditionAssert_def)
    from option_loop_Continue[OF getopt_webcam[OF that(1,2)] this] show ?thesis .
  qed
  have "option_loop permute main_init (getopt_init [''-W'' @ idx]) =
     option_loop permute
             (main_init\<lparr>params := (params main_init)\<lparr>use_webcam := True,
                     webcam_idx := (if idx = [] then webcam_idx (params main_init) else atoi idx)\<rparr>,
                 input_specified := True\<rparr>)
             ((getopt_init [''-W'' @ idx])\<lparr>rest := []\<rparr>)"
    by (rule step) (simp_all add: getopt_init_def main_init_def)
  also have "\<dots> = Inr (main_init\<lparr>params := params_init\<lparr>use_webcam := True,
                     webcam_idx := (if idx = [] then 0 else atoi idx)\<rparr>,
                  input_specified := True\<rparr>, Done, \<lparr>nextchar = [], rest = [], skipped = []\<rparr>)"
    by (subst option_loop_Done[where gs' = "\<lparr>nextchar = [], rest = [], skipped = []\<rparr>"])
       (simp_all add: getopt_def getopt_init_def next_element_def skip_nonoptions_def
          main_init_def params_init_def)
  finally have "parse_options permute [''-W'' @ idx] =
           Inr (main_init\<lparr>params := params_init\<lparr>use_webcam := True,
                     webcam_idx := (if idx = [] then 0 else atoi idx)\<rparr>,
                  input_specified := True\<rparr>)"
    by (simp add: parse_options_def optind_neq_argc_def conditionAssert_def main_init_def)
  with step[OF assms] show ?thesis by simp
qed

theorem webcam_index_is_attached_witness:
  "option_loop True main_init (getopt_init [''-W3'', ''-Z'']) =
     Inr (main_init\<lparr>params := params_init\<lparr>use_webcam := True, webcam_idx := 3\<rparr>,
            input_specified := True\<rparr>,
          Opt CHR ''Z'' None, \<lparr>nextchar = [], rest = [], skipped = []\<rparr>)"
proof -
  have 1: "nextchar (getopt_init [''-W3'', ''-Z'']) = []" by (simp add: getopt_init_def)
  have 2: "rest (getopt_init [''-W3'', ''-Z'']) = (''-W'' @ ''3'') # [''-Z'']" by (simp add: getopt_init_def)
  have 3: "\<not> input_specified main_init" by (simp add: main_init_def)
  have "option_loop True
             (main_init\<lparr>params := (params main_init)\<lparr>use_webcam := True,
                     webcam_idx := (if ''3'' = [] then webcam_idx (params main_init) else atoi ''3'')\<rparr>,
                 input_specified := True\<rparr>)
             ((getopt_init [''-W3'', ''-Z''])\<lparr>rest := [''-Z'']\<rparr>)
     = Inr (main_init\<lparr>params := params_init\<lparr>use_webcam := True, webcam_idx := 3\<rparr>,
            input_specified := True\<rparr>,
          Opt CHR ''Z'' None, \<lparr>nextchar = [], rest = [], skipped = []\<rparr>)"
    by code_simp
  with webcam_index_is_attached[OF 1 2 3, of True] show ?thesis by simp
qed

text \<open>
  C9, as stated, fails for \<open>-W 3\<close>: the token that follows the flag is not read as the
  index. The index stays 0, the token is left as a positional argument, and parsing
  ends with the help text and a fatal error.
\<close>

theorem webcam_index_separate_token_counterexample:
  "option_loop True main_init (getopt_init [''-W'', ''3'']) =
     Inr (main_init\<lparr>params := params_init\<lparr>use_webcam := True, webcam_idx := 0\<rparr>,
            input_specified := True\<rparr>,
          Done, \<lparr>nextchar = [], rest = [], skipped = [''3'']\<rparr>) \<and>
   atoi ''3'' = 3 \<and>
   parse_options True [''-W'', ''3''] =
     Inl (Exited EXIT_FAILURE
            [Help_text, Line (''[Error] An unexpected option was found.'' @ [CHR 0x0A])])"
  by code_simp

section \<open>Unrecognised options and positional arguments\<close>

declare scan_end.simps [simp del]

lemma scan_end_Opt:
  "getopt permute os gs = (Opt c a, gs') \<Longrightarrow> scan_end permute os gs = scan_end permute os gs'"
  by (subst scan_end.simps) simp

lemma scan_end_Done:
  "getopt permute os gs = (Done, gs') \<Longrightarrow> scan_end permute os gs = gs'"
  by (subst scan_end.simps) simp

lemma getopt_Opt_unread:
  assumes "getopt permute os gs = (Opt c a, gs')"
  shows "nextchar gs \<noteq> [] \<or> rest gs \<noteq> []"
proof (rule ccontr)
  assume "\<not> ?thesis"
  then have "getopt permute os gs = (Done, gs)"
    by (cases gs) (simp add: getopt_def skip_nonoptions_def next_element_def)
  with assms show False by simp
qed

lemma switch_body_unrecognized:
  "switch_body CHR ''?'' a st = Halt (Returned (- 1) (stderr st @ [Help_text]))"
  by (simp add: switch_body_def printHelp_def)

lemma option_loop_unexpected:
  assumes "unexpected permute gs"
  shows "(\<exists>st' r gs'. option_loop permute st gs = Inr (st', r, gs') \<and> optind_neq_argc r gs'
            \<and> stderr st' = stderr st)
         \<or> option_loop permute st gs = Inl (Returned (- 1) (stderr st @ [Help_text]))
         \<or> (option_loop permute st gs
               = Inl (Exited EXIT_FAILURE (stderr st @ [Line (''[Error] '' @ source_conflict @ [CHR 0x0A])]))
             \<and> (if input_specified st then 1 else 2)
                  \<le> source_options (getopt_trace permute optstring gs))"
  using assms
proof (induction permute st gs rule: option_loop.induct)
  case (1 permute st gs)
  obtain r gs' where g: "getopt permute optstring gs = (r, gs')"
    by (cases "getopt permute optstring gs")
  show ?case
  proof (cases r)
    case Done
    with g have g': "getopt permute optstring gs = (Done, gs')" by simp
    from "1.prems" have "skipped gs' \<noteq> [] \<or> rest gs' \<noteq> []"
      by (simp add: unexpected_def getopt_trace_Done[OF g'] scan_end_Done[OF g'])
    then show ?thesis
      by (simp add: option_loop_Done[OF g'] optind_neq_argc_def)
  next
    case (Opt c a)
    with g have g': "getopt permute optstring gs = (Opt c a, gs')" by simp
    note tr = getopt_trace_Opt[OF g'] and se = scan_end_Opt[OF g']
    show ?thesis
    proof (cases "switch_body c a st")
      case (Continue st')
      then have "c \<noteq> CHR ''?''" using switch_body_unrecognized by auto
      with "1.prems" have u: "unexpected permute gs'"
        by (auto simp: unexpected_def tr se)
      from switch_body_Continue[OF Continue]
      have st': "stderr st' = stderr st"
        "input_specified st' = (input_specified st \<or> is_source c)"
        by (simp_all add: is_source_def)
      from "1.IH"[OF g'[symmetric] refl Continue u] st'
      show ?thesis
        by (auto simp: option_loop_Continue[OF g' Continue] tr source_options_def split: if_splits)
    next
      case Break
      from switch_body_Break[OF g' Break] have "c = CHR ''Z''" .
      with "1.prems" have "getopt_trace permute optstring gs' \<noteq> []"
        by (auto simp: unexpected_def tr)
      then obtain c' a' gs'' where "getopt permute optstring gs' = (Opt c' a', gs'')"
        using getopt_trace_Done[of permute optstring gs']
        by (cases "getopt permute optstring gs'"; cases "fst (getopt permute optstring gs')") auto
      from getopt_Opt_unread[OF this] show ?thesis
        by (simp add: option_loop_Break[OF g' Break] optind_neq_argc_def)
    next
      case (Halt h)
      from switch_body_Halt[OF Halt] switch_body_defined[OF g', of st] Halt
      show ?thesis
        by (auto simp: option_loop_Halt[OF g' Halt] tr source_options_def is_source_def)
    qed
  qed
qed


text \<open>
  Where the missing case for \<open>Z\<close> plays no part, the checks do end the run: when the
  scan meets an unrecognised option, or leaves positional arguments and \<open>-Z\<close> is not
  among the options, the process ends with a non-zero status and the engine is not
  called. The help text comes first, unless a second input source has ended the
  process before with its own message.
\<close>

lemma unexpected_arguments_end_the_run:
  assumes "CHR ''?'' \<in> fst ` set (options_of permute args) \<or>
           (positional permute args \<noteq> [] \<and> CHR ''Z'' \<notin> fst ` set (options_of permute args))"
  shows "\<exists>h. parse_options permute args = Inl h \<and>
           main permute fs float_get args = \<lparr>ending = h, engine_calls = []\<rparr> \<and>
           (h = Returned (- 1) [Help_text] \<or>
            h = Exited EXIT_FAILURE
                  [Help_text, Line (''[Error] An unexpected option was found.'' @ [CHR 0x0A])] \<or>
            (h = Exited EXIT_FAILURE [Line (''[Error] '' @ source_conflict @ [CHR 0x0A])] \<and>
             2 \<le> source_options (options_of permute args)))"
proof -
  have init: "\<not> input_specified main_init" "stderr main_init = []"
    by (simp_all add: main_init_def)
  from assms have "unexpected permute (getopt_init args)"
    by (simp add: unexpected_def options_of_def positional_def Let_def)
  from option_loop_unexpected[OF this, of main_init]
  consider st' r gs' where "option_loop permute main_init (getopt_init args) = Inr (st', r, gs')"
      "optind_neq_argc r gs'" "stderr st' = []"
    | "option_loop permute main_init (getopt_init args) = Inl (Returned (- 1) [Help_text])"
    | "option_loop permute main_init (getopt_init args)
         = Inl (Exited EXIT_FAILURE [Line (''[Error] '' @ source_conflict @ [CHR 0x0A])])"
      "2 \<le> source_options (options_of permute args)"
    using init by (auto simp: options_of_def)
  then show ?thesis
  proof cases
    case 1
    then show ?thesis
      by (simp add: parse_options_def main_def conditionAssert_def printHelp_def)
  next
    case 2
    then show ?thesis by (simp add: parse_options_def main_def)
  next
    case 3
    then show ?thesis by (simp add: parse_options_def main_def)
  qed
qed


text \<open>
  C5. The run \<open>-B -Q q.txt -T t.txt -S s.txt -E e.txt extra -Z\<close> leaves the positional
  argument \<open>extra\<close>, yet the help text is not printed and the process is not ended: the
  engine is called and \<open>main\<close> returns 0. The \<open>switch\<close> has no case for \<open>Z\<close>, so
  \<open>-Z\<close> leaves the loop through the \<open>break\<close> with \<open>optind\<close> at \<open>argc\<close>, and the
  argument that \<open>getopt\<close> passed over is never looked at. The same positional argument
  does end the run with the help text and the fatal error when the scan ends by itself:
  without the \<open>-Z\<close>, with the \<open>-Z\<close> in front of it, or when \<open>getopt\<close> does not permute.
\<close>

theorem positional_before_final_Z_is_accepted:
  "positional True
     [''-B'', ''-Q'', ''q.txt'', ''-T'', ''t.txt'', ''-S'', ''s.txt'', ''-E'', ''e.txt'', ''extra'', ''-Z'']
   = [''extra''] \<and>
   main True example_fs int_get
     [''-B'', ''-Q'', ''q.txt'', ''-T'', ''t.txt'', ''-S'', ''s.txt'', ''-E'', ''e.txt'', ''extra'', ''-Z'']
   = \<lparr>ending = Returned 0 [],
      engine_calls =
        [runDDM_call
           (params_init\<lparr>q_file_name := ''q.txt'', t_file_name := ''t.txt'',
              s_file_name := ''s.txt'', e_file_name := ''e.txt'', benchmark_mode := True\<rparr>)
           \<lparr>tau_count = 4, lambda_count = 3, scale_count = 2, episode_count = 0,
            lambda_arr = [Some 1, Some 2, Some 3], tau_arr = [Some 1, Some 2, Some 4, Some 8],
            scale_arr = [Some 1, Some 2], episode_arr = []\<rparr>]\<rparr> \<and>
   main True example_fs int_get
     [''-B'', ''-Q'', ''q.txt'', ''-T'', ''t.txt'', ''-S'', ''s.txt'', ''-E'', ''e.txt'', ''extra'']
   = \<lparr>ending = Exited EXIT_FAILURE
        [Help_text, Line (''[Error] An unexpected option was found.'' @ [CHR 0x0A])],
      engine_calls = []\<rparr> \<and>
   main True example_fs int_get
     [''-B'', ''-Q'', ''q.txt'', ''-T'', ''t.txt'', ''-S'', ''s.txt'', ''-E'', ''e.txt'', ''-Z'', ''extra'']
   = \<lparr>ending = Exited EXIT_FAILURE
        [Help_text, Line (''[Error] An unexpected option was found.'' @ [CHR 0x0A])],
      engine_calls = []\<rparr> \<and>
   main False example_fs int_get
     [''-B'', ''-Q'', ''q.txt'', ''-T'', ''t.txt'', ''-S'', ''s.txt'', ''-E'', ''e.txt'', ''extra'', ''-Z'']
   = \<lparr>ending = Exited EXIT_FAILURE
        [Help_text, Line (''[Error] An unexpected option was found.'' @ [CHR 0x0A])],
      engine_calls = []\<rparr>"
  by code_simp

section \<open>The series files and the call of the engine\<close>

lemma option_loop_Inr:
  assumes "option_loop permute st gs = Inr (st', r, gs')"
  shows "stderr st' = stderr st \<and> multi_stream (params st') = multi_stream (params st)"
  using assms
proof (induction permute st gs rule: option_loop.induct)
  case (1 permute st gs)
  obtain r0 gs0 where g: "getopt permute optstring gs = (r0, gs0)"
    by (cases "getopt permute optstring gs")
  show ?case
  proof (cases r0)
    case Done
    with g "1.prems" show ?thesis by (simp add: option_loop_Done)
  next
    case (Opt c a)
    with g have g': "getopt permute optstring gs = (Opt c a, gs0)" by simp
    show ?thesis
    proof (cases "switch_body c a st")
      case (Continue st1)
      from "1.prems" have "option_loop permute st1 gs0 = Inr (st', r, gs')"
        by (simp add: option_loop_Continue[OF g' Continue])
      from "1.IH"[OF g'[symmetric] refl Continue this] switch_body_Continue[OF Continue]
      show ?thesis by simp
    next
      case Break
      with "1.prems" show ?thesis by (simp add: option_loop_Break[OF g' Break])
    next
      case (Halt h)
      with "1.prems" show ?thesis by (simp add: option_loop_Halt[OF g' Halt])
    qed
  qed
qed

lemma parse_options_Inr:
  assumes "parse_options permute args = Inr st"
  shows "stderr st = [] \<and> input_specified st \<and> multi_stream (params st)"
proof -
  from assms obtain st0 r gs where
    l: "option_loop permute main_init (getopt_init args) = Inr (st0, r, gs)"
    by (auto simp: parse_options_def split: sum.splits)
  from option_loop_Inr[OF l] have "stderr st0 = []" "multi_stream (params st0)"
    by (simp_all add: main_init_def params_init_def)
  with assms l show ?thesis
    by (auto simp: parse_options_def conditionAssert_def split: if_splits)
qed

lemma count_loop_Inr:
  "count_loop ng s count = Inr n \<Longrightarrow> n = count + int (length (extracted ng s))"
proof (induction ng s count rule: count_loop.induct)
  case (1 ng s count)
  show ?case
  proof (cases "extract_num ng s")
    case None
    then have "extracted ng s = []"
      by (subst extracted.simps) simp
    with None "1.prems" show ?thesis
      by (subst (asm) count_loop.simps) simp
  next
    case (Some a)
    obtain v r where a: "a = (v, r)" by (cases a)
    have e: "extracted ng s = v # extracted ng r"
      using Some a by (subst extracted.simps) simp
    from "1.prems" Some a have ne: "count \<noteq> INT_MAX"
      and c: "count_loop ng r (count + 1) = Inr n"
      by (subst (asm) count_loop.simps, simp split: if_splits)+
    from "1.IH"[OF Some a[symmetric] ne c] e show ?thesis by simp
  qed
qed

lemma load_pass_Inr:
  assumes "count_loop ng s 0 = Inr n" and "fill_loop ng s (replicate (nat n) None) 0 = Inr arr"
  shows "n = int (length (extracted ng s)) \<and> arr = map Some (extracted ng s)"
proof -
  from count_loop_Inr[OF assms(1)] have n: "n = int (length (extracted ng s))" by simp
  with assms(2) fill_loop_eq[of 0 ng s "replicate (length (extracted ng s)) None"]
  show ?thesis by simp
qed

lemma and_then_Inr:
  "and_then m k = Inr y \<Longrightarrow> \<exists>x. m = Inr x \<and> k x = Inr y"
  by (cases m) (simp_all add: and_then_def)

lemma read_series_Inr:
  assumes "read_series float_get q t s e = Inr sr"
  shows "sr = \<lparr>tau_count = int (length (extracted int_get t)),
               lambda_count = int (length (extracted float_get q)),
               scale_count = int (length (extracted int_get s)),
               episode_count = int (length (extracted int_get e)),
               lambda_arr = map Some (extracted float_get q),
               tau_arr = map Some (extracted int_get t),
               scale_arr = map Some (extracted int_get s),
               episode_arr = map Some (extracted int_get e)\<rparr>"
proof -
  from assms obtain lc tc sc ec la ta sa ea where
    c: "count_loop float_get q 0 = Inr lc" "count_loop int_get t 0 = Inr tc"
       "count_loop int_get s 0 = Inr sc" "count_loop int_get e 0 = Inr ec"
    and f: "fill_loop float_get q (replicate (nat lc) None) 0 = Inr la"
       "fill_loop int_get t (replicate (nat tc) None) 0 = Inr ta"
       "fill_loop int_get s (replicate (nat sc) None) 0 = Inr sa"
       "fill_loop int_get e (replicate (nat ec) None) 0 = Inr ea"
    and sr: "sr = \<lparr>tau_count = tc, lambda_count = lc, scale_count = sc, episode_count = ec,
               lambda_arr = la, tau_arr = ta, scale_arr = sa, episode_arr = ea\<rparr>"
    unfolding read_series_def
    by (auto dest!: and_then_Inr)
  from load_pass_Inr[OF c(1) f(1)] load_pass_Inr[OF c(2) f(2)] load_pass_Inr[OF c(3) f(3)]
    load_pass_Inr[OF c(4) f(4)] sr
  show ?thesis by simp
qed

lemma open_checks_None:
  assumes "q = None \<or> t = None \<or> s = None \<or> e = None"
  shows "\<exists>m \<in> set [''cannot open lambda-file.'', ''cannot open tau-file'',
                     ''cannot open scales-file.'', ''cannot open episode-file.''].
           open_checks q t s e err = Inl (Exited EXIT_FAILURE (err @ [Line (''[Error] '' @ m @ [CHR 0x0A])]))"
  using assms
  by (cases q; cases t; cases s; cases e)
     (simp_all add: open_checks_def and_then_def conditionAssert_def is_open_def)

lemma open_checks_Inr:
  assumes "open_checks q t s e err = Inr err'"
  shows "q \<noteq> None \<and> t \<noteq> None \<and> s \<noteq> None \<and> e \<noteq> None \<and> err' = err"
  using assms
  by (cases q; cases t; cases s; cases e)
     (simp_all add: open_checks_def and_then_def conditionAssert_def is_open_def)

lemma main_success:
  assumes "parse_options permute args = Inr st"
    and "fs (q_file_name (params st)) = Some q" and "fs (t_file_name (params st)) = Some t"
    and "fs (s_file_name (params st)) = Some s" and "fs (e_file_name (params st)) = Some e"
    and "read_series float_get q t s e = Inr sr"
  shows "main permute fs float_get args =
           \<lparr>ending = Returned 0 [], engine_calls = [runDDM_call (params st) sr]\<rparr>"
proof -
  from parse_options_Inr[OF assms(1)] have "stderr st = []" by simp
  with assms show ?thesis
    by (simp add: main_def Let_def readable_def open_checks_def and_then_def
          conditionAssert_def is_open_def)
qed

lemma multi_stream_never_cleared:
  assumes "c \<in> set (engine_calls (main permute fs float_get args))"
  shows "arg_multistream c"
proof (cases "parse_options permute args")
  case (Inl h)
  with assms show ?thesis by (simp add: main_def)
next
  case (Inr st)
  from parse_options_Inr[OF Inr] have "multi_stream (params st)" by simp
  with assms Inr show ?thesis
    by (auto simp: main_def Let_def runDDM_call_def split: sum.splits)
qed

text \<open>
  C7. When option parsing completes and one of the four series files cannot be
  opened, the process ends through a fatal \<open>conditionAssert\<close> with the message for the
  first such file, and the engine is not called. When option parsing completes and all
  four files are opened (each count within \<open>int\<close>), the engine is called exactly once,
  after the two passes over all four files, with the arrays they deliver, and \<open>main\<close>
  returns 0. In every other run the engine is not called at all.
\<close>

theorem engine_needs_all_four_series:
  "(parse_options permute args = Inr st \<and>
      (fs (q_file_name (params st)) = None \<or> fs (t_file_name (params st)) = None \<or>
       fs (s_file_name (params st)) = None \<or> fs (e_file_name (params st)) = None)
     \<longrightarrow> (\<exists>m \<in> set [''cannot open lambda-file.'', ''cannot open tau-file'',
                       ''cannot open scales-file.'', ''cannot open episode-file.''].
            main permute fs float_get args =
              \<lparr>ending = Exited EXIT_FAILURE [Line (''[Error] '' @ m @ [CHR 0x0A])],
               engine_calls = []\<rparr>)) \<and>
   (parse_options permute args = Inr st \<and>
      fs (q_file_name (params st)) = Some q \<and> fs (t_file_name (params st)) = Some t \<and>
      fs (s_file_name (params st)) = Some s \<and> fs (e_file_name (params st)) = Some e \<and>
      int (length (extracted float_get q)) \<le> INT_MAX \<and>
      int (length (extracted int_get t)) \<le> INT_MAX \<and>
      int (length (extracted int_get s)) \<le> INT_MAX \<and>
      int (length (extracted int_get e)) \<le> INT_MAX
     \<longrightarrow> main permute fs float_get args =
           \<lparr>ending = Returned 0 [],
            engine_calls = [runDDM_call (params st) (loaded float_get q t s e)]\<rparr>) \<and>
   (engine_calls (main permute fs float_get args) = [] \<or>
    (\<exists>st q t s e.
       parse_options permute args = Inr st \<and>
       fs (q_file_name (params st)) = Some q \<and> fs (t_file_name (params st)) = Some t \<and>
       fs (s_file_name (params st)) = Some s \<and> fs (e_file_name (params st)) = Some e \<and>
       main permute fs float_get args =
         \<lparr>ending = Returned 0 [],
          engine_calls = [runDDM_call (params st) (loaded float_get q t s e)]\<rparr>))"
proof (intro conjI impI)
  assume a: "parse_options permute args = Inr st \<and>
      (fs (q_file_name (params st)) = None \<or> fs (t_file_name (params st)) = None \<or>
       fs (s_file_name (params st)) = None \<or> fs (e_file_name (params st)) = None)"
  from a parse_options_Inr[of permute args st] have e: "stderr st = []" by simp
  from a open_checks_None[of "fs (q_file_name (params st))" "fs (t_file_name (params st))"
      "fs (s_file_name (params st))" "fs (e_file_name (params st))" "[]"]
  obtain m where m: "m \<in> set [''cannot open lambda-file.'', ''cannot open tau-file'',
                     ''cannot open scales-file.'', ''cannot open episode-file.'']"
    and o: "open_checks (fs (q_file_name (params st))) (fs (t_file_name (params st)))
      (fs (s_file_name (params st))) (fs (e_file_name (params st))) []
      = Inl (Exited EXIT_FAILURE ([] @ [Line (''[Error] '' @ m @ [CHR 0x0A])]))"
    by blast
  from a e o have "main permute fs float_get args =
              \<lparr>ending = Exited EXIT_FAILURE [Line (''[Error] '' @ m @ [CHR 0x0A])],
               engine_calls = []\<rparr>"
    by (simp add: main_def Let_def)
  with m show "\<exists>m \<in> set [''cannot open lambda-file.'', ''cannot open tau-file'',
                       ''cannot open scales-file.'', ''cannot open episode-file.''].
            main permute fs float_get args =
              \<lparr>ending = Exited EXIT_FAILURE [Line (''[Error] '' @ m @ [CHR 0x0A])],
               engine_calls = []\<rparr>"
    by blast
next
  assume a: "parse_options permute args = Inr st \<and>
      fs (q_file_name (params st)) = Some q \<and> fs (t_file_name (params st)) = Some t \<and>
      fs (s_file_name (params st)) = Some s \<and> fs (e_file_name (params st)) = Some e \<and>
      int (length (extracted float_get q)) \<le> INT_MAX \<and>
      int (length (extracted int_get t)) \<le> INT_MAX \<and>
      int (length (extracted int_get s)) \<le> INT_MAX \<and>
      int (length (extracted int_get e)) \<le> INT_MAX"
  then have "read_series float_get q t s e = Inr (loaded float_get q t s e)"
    by (intro read_series_eq) simp_all
  with a show "main permute fs float_get args =
           \<lparr>ending = Returned 0 [],
            engine_calls = [runDDM_call (params st) (loaded float_get q t s e)]\<rparr>"
    by (intro main_success) simp_all
next
  show "engine_calls (main permute fs float_get args) = [] \<or>
    (\<exists>st q t s e.
       parse_options permute args = Inr st \<and>
       fs (q_file_name (params st)) = Some q \<and> fs (t_file_name (params st)) = Some t \<and>
       fs (s_file_name (params st)) = Some s \<and> fs (e_file_name (params st)) = Some e \<and>
       main permute fs float_get args =
         \<lparr>ending = Returned 0 [],
          engine_calls = [runDDM_call (params st) (loaded float_get q t s e)]\<rparr>)"
  proof (cases "parse_options permute args")
    case (Inl h)
    then show ?thesis by (simp add: main_def)
  next
    case (Inr st)
    from parse_options_Inr[OF Inr] have e: "stderr st = []" by simp
    let ?q = "fs (q_file_name (params st))" and ?t = "fs (t_file_name (params st))"
    let ?s = "fs (s_file_name (params st))" and ?e = "fs (e_file_name (params st))"
    show ?thesis
    proof (cases "open_checks ?q ?t ?s ?e []")
      case (Inl h)
      with Inr e show ?thesis by (simp add: main_def Let_def)
    next
      case oc: (Inr err)
      from open_checks_Inr[OF oc] obtain q t s e' where
        f: "?q = Some q" "?t = Some t" "?s = Some s" "?e = Some e'" and err: "err = []"
        by auto
      show ?thesis
      proof (cases "read_series float_get q t s e'")
        case (Inl u)
        with Inr e oc f show ?thesis by (simp add: main_def Let_def readable_def)
      next
        case rs: (Inr sr)
        from read_series_Inr[OF rs] have "sr = loaded float_get q t s e'"
          by (simp add: loaded_def)
        with Inr e oc f rs err show ?thesis
          by (simp add: main_def Let_def readable_def)
      qed
    qed
  qed
qed

theorem engine_needs_all_four_series_witness:
  "parse_options True [''-B'', ''-Q'', ''q.txt'', ''-T'', ''nowhere.txt'', ''-S'', ''s.txt'', ''-E'', ''e.txt'']
     = Inr (main_init\<lparr>params := params_init\<lparr>q_file_name := ''q.txt'', t_file_name := ''nowhere.txt'',
              s_file_name := ''s.txt'', e_file_name := ''e.txt'', benchmark_mode := True\<rparr>,
            input_specified := True\<rparr>) \<and>
   example_fs ''nowhere.txt'' = None \<and>
   main True example_fs int_get
     [''-B'', ''-Q'', ''q.txt'', ''-T'', ''nowhere.txt'', ''-S'', ''s.txt'', ''-E'', ''e.txt'']
     = \<lparr>ending = Exited EXIT_FAILURE [Line (''[Error] cannot open tau-file'' @ [CHR 0x0A])],
        engine_calls = []\<rparr> \<and>
   parse_options True [''-B'', ''-Q'', ''q.txt'', ''-T'', ''t.txt'', ''-S'', ''s.txt'', ''-E'', ''e.txt'']
     = Inr (main_init\<lparr>params := params_init\<lparr>q_file_name := ''q.txt'', t_file_name := ''t.txt'',
              s_file_name := ''s.txt'', e_file_name := ''e.txt'', benchmark_mode := True\<rparr>,
            input_specified := True\<rparr>) \<and>
   main True example_fs int_get
     [''-B'', ''-Q'', ''q.txt'', ''-T'', ''t.txt'', ''-S'', ''s.txt'', ''-E'', ''e.txt'']
     = \<lparr>ending = Returned 0 [],
        engine_calls =
          [runDDM_call
             (params_init\<lparr>q_file_name := ''q.txt'', t_file_name := ''t.txt'',
                s_file_name := ''s.txt'', e_file_name := ''e.txt'', benchmark_mode := True\<rparr>)
             \<lparr>tau_count = 4, lambda_count = 3, scale_count = 2, episode_count = 0,
              lambda_arr = [Some 1, Some 2, Some 3], tau_arr = [Some 1, Some 2, Some 4, Some 8],
              scale_arr = [Some 1, Some 2], episode_arr = []\<rparr>]\<rparr>"
proof -
  let ?args = "[''-B'', ''-Q'', ''q.txt'', ''-T'', ''nowhere.txt'', ''-S'', ''s.txt'', ''-E'', ''e.txt'']"
  let ?st = "main_init\<lparr>params := params_init\<lparr>q_file_name := ''q.txt'', t_file_name := ''nowhere.txt'',
              s_file_name := ''s.txt'', e_file_name := ''e.txt'', benchmark_mode := True\<rparr>,
            input_specified := True\<rparr>"
  have p: "parse_options True ?args = Inr ?st" by code_simp
  have n: "example_fs ''nowhere.txt'' = None" by code_simp
  then have f: "example_fs (t_file_name (params ?st)) = None" by simp
  have m: "main True example_fs int_get ?args
     = \<lparr>ending = Exited EXIT_FAILURE [Line (''[Error] cannot open tau-file'' @ [CHR 0x0A])],
        engine_calls = []\<rparr>" by code_simp
  let ?args2 = "[''-B'', ''-Q'', ''q.txt'', ''-T'', ''t.txt'', ''-S'', ''s.txt'', ''-E'', ''e.txt'']"
  let ?st2 = "main_init\<lparr>params := params_init\<lparr>q_file_name := ''q.txt'', t_file_name := ''t.txt'',
              s_file_name := ''s.txt'', e_file_name := ''e.txt'', benchmark_mode := True\<rparr>,
            input_specified := True\<rparr>"
  let ?t = "''1'' @ [CHR 0x0A] @ ''2'' @ [CHR 0x0A] @ ''4'' @ [CHR 0x0A] @ ''8''"
  have p2: "parse_options True ?args2 = Inr ?st2" by code_simp
  have o: "example_fs (q_file_name (params ?st2)) = Some ''1 2 3''"
    "example_fs (t_file_name (params ?st2)) = Some ?t"
    "example_fs (s_file_name (params ?st2)) = Some ''1 2''"
    "example_fs (e_file_name (params ?st2)) = Some []"
    by (simp_all add: example_fs_def)
  have b: "int (length (extracted int_get ''1 2 3'')) \<le> INT_MAX"
    "int (length (extracted int_get ?t)) \<le> INT_MAX"
    "int (length (extracted int_get ''1 2'')) \<le> INT_MAX"
    "int (length (extracted int_get [])) \<le> INT_MAX"
    by code_simp+
  have l: "loaded int_get ''1 2 3'' ?t ''1 2'' []
      = \<lparr>tau_count = 4, lambda_count = 3, scale_count = 2, episode_count = 0,
              lambda_arr = [Some 1, Some 2, Some 3], tau_arr = [Some 1, Some 2, Some 4, Some 8],
              scale_arr = [Some 1, Some 2], episode_arr = []\<rparr>"
    by code_simp
  have m2: "main True example_fs int_get ?args2
     = \<lparr>ending = Returned 0 [],
        engine_calls = [runDDM_call (params ?st2) (loaded int_get ''1 2 3'' ?t ''1 2'' [])]\<rparr>"
    using engine_needs_all_four_series[where permute = True and args = ?args2 and st = ?st2
        and fs = example_fs and q = "''1 2 3''" and t = ?t and s = "''1 2''" and e = "[]"
        and float_get = int_get]
      p2 o b by blast
  from engine_needs_all_four_series[where permute = True and args = ?args and st = ?st
      and fs = example_fs and float_get = int_get] p f n m
  show ?thesis unfolding p2 using m2 l by simp
qed


section \<open>The series that \<open>main\<close> reads\<close>

lemma extracted_well_formed:
  assumes "list_all2 (numeric_token ng) (split_ws s) vs"
  shows "extracted ng s = vs"
proof -
  have "extracted ng [] = []"
    by (rule extracted_None) (simp add: extract_num_def)
  with extracted_tokens[OF assms, of "[]"] show ?thesis by simp
qed

text \<open>
  C3. When the content of each of the four files is white-space separated tokens that
  are all numeric for the element type of its series, the two passes that \<open>main\<close>
  runs give, for each file, the number of its tokens as the count and an array of
  exactly that length that holds the values of the tokens in file order, every cell
  written; with parsing complete and the four files opened, these are the arrays and
  counts of the one call of the engine. The series are a function of the contents, so
  reading the same contents again gives the same series. (Each count is an \<open>int\<close>.)
\<close>

theorem read_series_well_formed:
  assumes "list_all2 (numeric_token float_get) (split_ws q) qs"
    and "list_all2 (numeric_token int_get) (split_ws t) ts"
    and "list_all2 (numeric_token int_get) (split_ws s) ss"
    and "list_all2 (numeric_token int_get) (split_ws e) es"
    and "int (length qs) \<le> INT_MAX" and "int (length ts) \<le> INT_MAX"
    and "int (length ss) \<le> INT_MAX" and "int (length es) \<le> INT_MAX"
  shows "read_series float_get q t s e =
           Inr \<lparr>tau_count = int (length (split_ws t)), lambda_count = int (length (split_ws q)),
                scale_count = int (length (split_ws s)), episode_count = int (length (split_ws e)),
                lambda_arr = map Some qs, tau_arr = map Some ts,
                scale_arr = map Some ss, episode_arr = map Some es\<rparr> \<and>
         (parse_options permute args = Inr st \<and>
            fs (q_file_name (params st)) = Some q \<and> fs (t_file_name (params st)) = Some t \<and>
            fs (s_file_name (params st)) = Some s \<and> fs (e_file_name (params st)) = Some e
          \<longrightarrow> main permute fs float_get args =
                \<lparr>ending = Returned 0 [],
                 engine_calls =
                   [runDDM_call (params st)
                      \<lparr>tau_count = int (length (split_ws t)),
                       lambda_count = int (length (split_ws q)),
                       scale_count = int (length (split_ws s)),
                       episode_count = int (length (split_ws e)),
                       lambda_arr = map Some qs, tau_arr = map Some ts,
                       scale_arr = map Some ss, episode_arr = map Some es\<rparr>]\<rparr>)"
proof -
  note ex = extracted_well_formed[OF assms(1)] extracted_well_formed[OF assms(2)]
    extracted_well_formed[OF assms(3)] extracted_well_formed[OF assms(4)]
  note len = list_all2_lengthD[OF assms(1)] list_all2_lengthD[OF assms(2)]
    list_all2_lengthD[OF assms(3)] list_all2_lengthD[OF assms(4)]
  have "read_series float_get q t s e = Inr (loaded float_get q t s e)"
    using assms(5-8) by (intro read_series_eq) (simp_all add: ex)
  then have r: "read_series float_get q t s e =
           Inr \<lparr>tau_count = int (length (split_ws t)), lambda_count = int (length (split_ws q)),
                scale_count = int (length (split_ws s)), episode_count = int (length (split_ws e)),
                lambda_arr = map Some qs, tau_arr = map Some ts,
                scale_arr = map Some ss, episode_arr = map Some es\<rparr>"
    by (simp add: loaded_def ex len)
  show ?thesis
  proof (intro conjI impI)
    show "read_series float_get q t s e =
           Inr \<lparr>tau_count = int (length (split_ws t)), lambda_count = int (length (split_ws q)),
                scale_count = int (length (split_ws s)), episode_count = int (length (split_ws e)),
                lambda_arr = map Some qs, tau_arr = map Some ts,
                scale_arr = map Some ss, episode_arr = map Some es\<rparr>"
      by (rule r)
  next
    assume "parse_options permute args = Inr st \<and>
            fs (q_file_name (params st)) = Some q \<and> fs (t_file_name (params st)) = Some t \<and>
            fs (s_file_name (params st)) = Some s \<and> fs (e_file_name (params st)) = Some e"
    then show "main permute fs float_get args =
                \<lparr>ending = Returned 0 [],
                 engine_calls =
                   [runDDM_call (params st)
                      \<lparr>tau_count = int (length (split_ws t)),
                       lambda_count = int (length (split_ws q)),
                       scale_count = int (length (split_ws s)),
                       episode_count = int (length (split_ws e)),
                       lambda_arr = map Some qs, tau_arr = map Some ts,
                       scale_arr = map Some ss, episode_arr = map Some es\<rparr>]\<rparr>"
      by (intro main_success[OF _ _ _ _ _ r]) simp_all
  qed
qed

theorem read_series_well_formed_witness:
  "main True example_fs int_get
     [''-o'', ''out.bin'', ''-N'', ''100'', ''-f'', ''video.mp4'', ''-Q'', ''q.txt'', ''-T'', ''t.txt'',
      ''-S'', ''s.txt'', ''-E'', ''e.txt'']
   = \<lparr>ending = Returned 0 [],
      engine_calls =
        [runDDM_call
           (params_init\<lparr>file_in := ''video.mp4'', file_out := ''out.bin'', q_file_name := ''q.txt'',
              t_file_name := ''t.txt'', s_file_name := ''s.txt'', e_file_name := ''e.txt'',
              frame_count := 100\<rparr>)
           \<lparr>tau_count = 4, lambda_count = 3, scale_count = 2, episode_count = 0,
            lambda_arr = [Some 1, Some 2, Some 3], tau_arr = [Some 1, Some 2, Some 4, Some 8],
            scale_arr = [Some 1, Some 2], episode_arr = []\<rparr>]\<rparr>"
proof -
  let ?args = "[''-o'', ''out.bin'', ''-N'', ''100'', ''-f'', ''video.mp4'', ''-Q'', ''q.txt'',
      ''-T'', ''t.txt'', ''-S'', ''s.txt'', ''-E'', ''e.txt'']"
  let ?st = "main_init\<lparr>params := params_init\<lparr>file_in := ''video.mp4'', file_out := ''out.bin'',
              q_file_name := ''q.txt'', t_file_name := ''t.txt'', s_file_name := ''s.txt'',
              e_file_name := ''e.txt'', frame_count := 100\<rparr>,
            input_specified := True\<rparr>"
  let ?t = "''1'' @ [CHR 0x0A] @ ''2'' @ [CHR 0x0A] @ ''4'' @ [CHR 0x0A] @ ''8''"
  have n1: "numeric_token int_get ''1'' 1"
    by (rule int_numeric_token) code_simp+
  have n2: "numeric_token int_get ''2'' 2"
    by (rule int_numeric_token) code_simp+
  have n3: "numeric_token int_get ''3'' 3"
    by (rule int_numeric_token) code_simp+
  have n4: "numeric_token int_get ''4'' 4"
    by (rule int_numeric_token) code_simp+
  have n8: "numeric_token int_get ''8'' 8"
    by (rule int_numeric_token) code_simp+
  note n = n1 n2 n3 n4 n8
  have sp: "split_ws ''1 2 3'' = [''1'', ''2'', ''3'']" "split_ws ?t = [''1'', ''2'', ''4'', ''8'']"
    "split_ws ''1 2'' = [''1'', ''2'']" "split_ws [] = []"
    by code_simp+
  have h: "list_all2 (numeric_token int_get) (split_ws ''1 2 3'') [1, 2, 3]"
    "list_all2 (numeric_token int_get) (split_ws ?t) [1, 2, 4, 8]"
    "list_all2 (numeric_token int_get) (split_ws ''1 2'') [1, 2]"
    "list_all2 (numeric_token int_get) (split_ws []) []"
    unfolding sp using n by simp_all
  have b: "int (length [1, 2, 3 :: int]) \<le> INT_MAX" "int (length [1, 2, 4, 8 :: int]) \<le> INT_MAX"
    "int (length [1, 2 :: int]) \<le> INT_MAX" "int (length ([] :: int list)) \<le> INT_MAX"
    by (simp_all add: INT_MAX_def)
  have p: "parse_options True ?args = Inr ?st" by code_simp
  have o: "example_fs (q_file_name (params ?st)) = Some ''1 2 3''"
    "example_fs (t_file_name (params ?st)) = Some ?t"
    "example_fs (s_file_name (params ?st)) = Some ''1 2''"
    "example_fs (e_file_name (params ?st)) = Some []"
    by (simp_all add: example_fs_def)
  from read_series_well_formed[OF h b, where permute = True and args = ?args and st = ?st
      and fs = example_fs, unfolded sp] p o
  show ?thesis by simp
qed

text \<open>
  C4, as the code has it. For every content of the four files (each count within
  \<open>int\<close>), the counting pass and the filling pass over a file stop at the same
  extraction, the first one that fails, and the series is, without any error, the
  values of the extractions before it, in file order. These are the values of the
  numeric tokens up to the first token that is not numeric, followed by what the
  extractions read from there on: nothing when the extraction fails at once there, and
  otherwise the number at the front of that token and whatever further extractions read
  behind it. An empty file gives a series of length zero.
\<close>

theorem series_end_at_first_failing_extraction:
  assumes "int (length (extracted float_get q)) \<le> INT_MAX"
    and "int (length (extracted int_get t)) \<le> INT_MAX"
    and "int (length (extracted int_get s)) \<le> INT_MAX"
    and "int (length (extracted int_get e)) \<le> INT_MAX"
  shows "read_series float_get q t s e = Inr (loaded float_get q t s e) \<and>
         count_loop float_get q 0 = Inr (int (length (extracted float_get q))) \<and>
         fill_loop float_get q (replicate (length (extracted float_get q)) None) 0
           = Inr (map Some (extracted float_get q)) \<and>
         (list_all2 (numeric_token ng) (split_ws pre) vs \<and> (pre = [] \<or> isspace (last pre))
            \<longrightarrow> extracted ng (pre @ bad) = vs @ extracted ng bad) \<and>
         (extract_num ng bad = None \<longrightarrow> extracted ng bad = []) \<and>
         (extract_num ng bad = Some (v, r) \<longrightarrow> extracted ng bad = v # extracted ng r) \<and>
         extracted ng [] = []"
proof -
  have 1: "read_series float_get q t s e = Inr (loaded float_get q t s e)"
    by (rule read_series_eq[OF assms])
  have 2: "count_loop float_get q 0 = Inr (int (length (extracted float_get q)))"
    using count_loop_eq[of 0 float_get q] assms(1) by simp
  have 3: "fill_loop float_get q (replicate (length (extracted float_get q)) None) 0
           = Inr (map Some (extracted float_get q))"
    using fill_loop_eq[of 0 float_get q "replicate (length (extracted float_get q)) None"]
    by simp
  have 4: "extracted ng (pre @ bad) = vs @ extracted ng bad"
    if "list_all2 (numeric_token ng) (split_ws pre) vs \<and> (pre = [] \<or> isspace (last pre))"
    using that by (intro extracted_tokens) simp_all
  have 5: "extracted ng [] = []"
    by (rule extracted_None) (simp add: extract_num_def)
  from 1 2 3 4 5 show ?thesis
    by (simp add: extracted_None extracted_Some)
qed

theorem series_end_at_first_failing_extraction_witness:
  "read_series int_get (''1 2 '' @ ''x 5'') ''12abc 5'' ''1'' []
     = Inr \<lparr>tau_count = 1, lambda_count = 2, scale_count = 1, episode_count = 0,
            lambda_arr = [Some 1, Some 2], tau_arr = [Some 12], scale_arr = [Some 1],
            episode_arr = []\<rparr> \<and>
   split_ws ''1 2 '' = [''1'', ''2''] \<and>
   extract_num int_get ''x 5'' = None \<and>
   extracted int_get (''1 2 '' @ ''x 5'') = [1, 2]"
proof -
  have b: "int (length (extracted int_get (''1 2 '' @ ''x 5''))) \<le> INT_MAX"
    "int (length (extracted int_get ''12abc 5'')) \<le> INT_MAX"
    "int (length (extracted int_get ''1'')) \<le> INT_MAX"
    "int (length (extracted int_get [])) \<le> INT_MAX"
    by code_simp+
  have sp: "split_ws ''1 2 '' = [''1'', ''2'']" by code_simp
  have n1: "numeric_token int_get ''1'' 1"
    by (rule int_numeric_token) code_simp+
  have n2: "numeric_token int_get ''2'' 2"
    by (rule int_numeric_token) code_simp+
  have h: "list_all2 (numeric_token int_get) (split_ws ''1 2 '') [1, 2] \<and>
           (''1 2 '' = [] \<or> isspace (last ''1 2 ''))"
    unfolding sp using n1 n2 by (simp add: isspace_def)
  have x: "extract_num int_get ''x 5'' = None" by code_simp
  note t = series_end_at_first_failing_extraction[OF b, where ng = int_get and pre = "''1 2 ''"
      and bad = "''x 5''" and vs = "[1, 2]"]
  from t h x have e: "extracted int_get (''1 2 '' @ ''x 5'') = [1, 2]"
    by simp
  have l: "loaded int_get (''1 2 '' @ ''x 5'') ''12abc 5'' ''1'' []
     = \<lparr>tau_count = 1, lambda_count = 2, scale_count = 1, episode_count = 0,
            lambda_arr = [Some 1, Some 2], tau_arr = [Some 12], scale_arr = [Some 1],
            episode_arr = []\<rparr>"
    by code_simp
  from t l sp x e show ?thesis by simp
qed

text \<open>
  C4, as stated, fails for the integer series files \<open>12abc 5\<close> and \<open>12-5 7\<close>. The first
  token of each is not numeric (the extraction reads only two of its characters), so no
  numeric token stands before the first token that is not numeric; yet the first file
  gives the series 12, and the second gives 12, -5, 7, where no extraction fails before
  the end of the file.
\<close>

theorem values_cut_from_a_token_counterexample:
  "split_ws ''12abc 5'' = [''12abc'', ''5''] \<and> scan int_get ''12abc'' = 2 \<and>
   split_ws ''12-5 7'' = [''12-5'', ''7''] \<and> scan int_get ''12-5'' = 2 \<and>
   read_series int_get [] ''12abc 5'' ''12-5 7'' []
     = Inr \<lparr>tau_count = 1, lambda_count = 0, scale_count = 3, episode_count = 0,
            lambda_arr = [], tau_arr = [Some 12], scale_arr = [Some 12, Some (- 5), Some 7],
            episode_arr = []\<rparr>"
  by code_simp


section \<open>The q-tolerance\<close>

declare bit_length.simps [simp del]

lemma bit_length_numeral:
  "bit_length (numeral n) = Suc (bit_length (numeral n div 2))"
  by (subst bit_length.simps) simp

lemma bit_length_small: "bit_length 0 = 0" "bit_length (Suc 0) = 1" "bit_length 1 = 1"
  by (subst bit_length.simps, simp add: bit_length.simps[of 0])+

lemmas bit_length_eval = bit_length_numeral bit_length_small

text \<open>The rounding is what its name says: \<open>binade\<close> gives the power of two at or
  below the magnitude, and \<open>round_to prec x\<close> is a multiple of the unit in the last place
  of \<open>x\<close> that lies within half a unit of \<open>x\<close>.\<close>

lemma bit_length_bounds:
  "0 < n \<Longrightarrow> 2 ^ (bit_length n - 1) \<le> n \<and> n < 2 ^ bit_length n"
proof (induction n rule: bit_length.induct)
  case (1 n)
  show ?case
  proof (cases "n div 2 = 0")
    case True
    with "1.prems" have "n = 1" by auto
    then show ?thesis by (simp add: bit_length_small)
  next
    case False
    then have m: "0 < n div 2" by simp
    from "1.prems" have bl: "bit_length n = Suc (bit_length (n div 2))"
      by (subst bit_length.simps) simp
    from "1.IH"[OF _ m] "1.prems"
    have ih: "2 ^ (bit_length (n div 2) - 1) \<le> n div 2" "n div 2 < 2 ^ bit_length (n div 2)"
      by simp_all
    have pos: "0 < bit_length (n div 2)"
      using m by (subst bit_length.simps) simp
    then have "(2::nat) ^ bit_length (n div 2) = 2 * 2 ^ (bit_length (n div 2) - 1)"
      by (cases "bit_length (n div 2)") simp_all
    with ih(1) have "2 ^ bit_length (n div 2) \<le> 2 * (n div 2)" by simp
    also have "\<dots> \<le> n" by simp
    finally have lo: "2 ^ (bit_length n - 1) \<le> n" by (simp add: bl)
    from ih(2) have "n div 2 + 1 \<le> 2 ^ bit_length (n div 2)" by simp
    then have "2 * (n div 2) + 2 \<le> 2 * 2 ^ bit_length (n div 2)" by simp
    moreover have "n < 2 * (n div 2) + 2" by presburger
    ultimately have hi: "n < 2 ^ bit_length n" by (simp add: bl)
    from lo hi show ?thesis ..
  qed
qed

lemma pow2_pos: "0 < pow2 e"
  by (simp add: pow2_def)

lemma pow2_Suc: "pow2 (e + 1) = 2 * pow2 e"
proof (cases "0 \<le> e")
  case True
  then show ?thesis by (simp add: pow2_def nat_add_distrib)
next
  case False
  then obtain n where "e = - int (Suc n)"
    by (metis not_le zero_less_imp_eq_int neg_0_less_iff_less add.inverse_inverse gr0_implies_Suc of_nat_0_less_iff)
  then show ?thesis by (simp add: pow2_def nat_add_distrib)
qed

lemma pow2_nat: "pow2 (int n) = 2 ^ n"
  by (simp add: pow2_def)

lemma pow2_neg: "pow2 (- e) = 1 / pow2 e"
  by (cases "e = 0") (auto simp: pow2_def)

lemma binade_bounds:
  assumes "x \<noteq> 0"
  shows "pow2 (binade x) \<le> \<bar>x\<bar> \<and> \<bar>x\<bar> < pow2 (binade x + 1)"
proof (cases "1 \<le> \<bar>x\<bar>")
  case True
  define f where "f = nat \<lfloor>\<bar>x\<bar>\<rfloor>"
  from True have fpos: "0 < f" by (simp add: f_def)
  have fl: "of_nat f \<le> \<bar>x\<bar>" "\<bar>x\<bar> < of_nat f + 1"
    using True by (simp_all add: f_def) linarith+
  from bit_length_bounds[OF fpos]
  have b: "2 ^ (bit_length f - 1) \<le> f" "f + 1 \<le> 2 ^ bit_length f" by simp_all
  have bp: "0 < bit_length f" using fpos by (subst bit_length.simps) simp
  have k: "binade x = int (bit_length f) - 1"
    using True by (simp add: binade_def Let_def f_def)
  have k': "binade x = int (bit_length f - 1)" using bp k by simp
  have "pow2 (binade x) = of_nat (2 ^ (bit_length f - 1))"
    unfolding k' by (simp add: pow2_nat)
  also have "\<dots> \<le> of_nat f" using b(1) by (simp only: of_nat_le_iff)
  finally have lo: "pow2 (binade x) \<le> \<bar>x\<bar>" using fl(1) by simp
  have "\<bar>x\<bar> < of_nat (f + 1)" using fl(2) by simp
  also have "\<dots> \<le> of_nat (2 ^ bit_length f)" using b(2) by (simp only: of_nat_le_iff)
  also have "\<dots> = pow2 (binade x + 1)" by (simp add: k pow2_nat)
  finally show ?thesis using lo by simp
next
  case False
  define y where "y = 1 / \<bar>x\<bar>"
  from False assms have y1: "1 < y" by (simp add: y_def)
  define f where "f = nat \<lfloor>y\<rfloor>"
  from y1 have fpos: "0 < f" by (simp add: f_def)
  have fl: "of_nat f \<le> y" "y < of_nat f + 1"
    using y1 by (simp_all add: f_def) linarith+
  define b where "b = bit_length f"
  from bit_length_bounds[OF fpos]
  have bb: "2 ^ (b - 1) \<le> f" "f + 1 \<le> 2 ^ b" by (simp_all add: b_def)
  have bp: "0 < b" using fpos unfolding b_def by (subst bit_length.simps) simp
  have "of_nat (2 ^ (b - 1)) \<le> (of_nat f :: rat)" using bb(1) by (simp only: of_nat_le_iff)
  then have "of_nat (2 ^ (b - 1)) \<le> y" using fl(1) by (rule order_trans)
  moreover have "pow2 (int b - 1) = of_nat (2 ^ (b - 1))"
    using bp pow2_nat[of "b - 1"] by (simp add: of_nat_diff)
  ultimately have ylo: "pow2 (int b - 1) \<le> y" by simp
  have "y < of_nat (f + 1)" using fl(2) by simp
  also have "\<dots> \<le> of_nat (2 ^ b)" using bb(2) by (simp only: of_nat_le_iff)
  finally have yhi: "y < pow2 (int b)" by (simp add: pow2_nat)
  have ax: "\<bar>x\<bar> = 1 / y" using assms by (simp add: y_def)
  have ypos: "0 < y" using y1 by simp
  show ?thesis
  proof (cases "y = pow2 (int b - 1)")
    case True
    then have k: "binade x = - (int b - 1)"
      using False by (simp add: binade_def Let_def y_def f_def b_def)
    have "pow2 (binade x) = \<bar>x\<bar>"
      unfolding k pow2_neg ax using True by simp
    moreover have "pow2 (binade x + 1) = 2 * \<bar>x\<bar>"
      using calculation pow2_Suc by simp
    ultimately show ?thesis using assms by simp
  next
    case ne: False
    then have k: "binade x = - int b"
      using False by (simp add: binade_def Let_def y_def f_def b_def)
    from ne ylo have ylo': "pow2 (int b - 1) < y" by simp
    have "pow2 (binade x) = 1 / pow2 (int b)" unfolding k by (rule pow2_neg)
    also have "\<dots> < 1 / y" using yhi ypos by (simp add: frac_less2)
    finally have lo: "pow2 (binade x) \<le> \<bar>x\<bar>" using ax by simp
    have "binade x + 1 = - (int b - 1)" using k by simp
    then have "pow2 (binade x + 1) = 1 / pow2 (int b - 1)" by (simp only: pow2_neg)
    moreover have "1 / y < 1 / pow2 (int b - 1)"
      using ylo' pow2_pos[of "int b - 1"] by (simp add: frac_less2)
    ultimately show ?thesis using lo ax by simp
  qed
qed


lemma round_half_even_near: "\<bar>of_int (round_half_even y) - y\<bar> \<le> 1 / 2"
proof -
  have "of_int \<lfloor>y\<rfloor> \<le> y" "y < of_int \<lfloor>y\<rfloor> + 1" by linarith+
  then show ?thesis
    by (auto simp: round_half_even_def Let_def abs_le_iff)
qed

lemma round_to_near:
  "\<bar>round_to prec x - x\<bar> \<le> pow2 (binade x - int prec + 1) / 2"
proof (cases "x = 0")
  case True
  then show ?thesis using pow2_pos[of "binade x - int prec + 1"] by (simp add: round_to_def)
next
  case False
  define u where "u = pow2 (binade x - int prec + 1)"
  have u: "0 < u" by (simp add: u_def pow2_pos)
  have "round_to prec x = of_int (round_half_even (x / u)) * u"
    using False by (simp add: round_to_def Let_def u_def)
  then have "round_to prec x - x = u * (of_int (round_half_even (x / u)) - x / u)"
    using u by (simp add: algebra_simps)
  then have "\<bar>round_to prec x - x\<bar> = u * \<bar>of_int (round_half_even (x / u)) - x / u\<bar>"
    using u by (simp add: abs_mult)
  also have "\<dots> \<le> u * (1 / 2)"
    using u round_half_even_near[of "x / u"] by (intro mult_left_mono) simp_all
  finally show ?thesis by (simp add: u_def)
qed

lemma binade_big:
  assumes "1 \<le> \<bar>x\<bar>" and "\<lfloor>\<bar>x\<bar>\<rfloor> = f" and "bit_length (nat f) = b" and "k = int b - 1"
  shows "binade x = k"
  using assms by (simp add: binade_def Let_def)

lemma binade_small:
  assumes "\<bar>x\<bar> < 1" and "\<lfloor>1 / \<bar>x\<bar>\<rfloor> = f" and "bit_length (nat f) = b"
    and "1 / \<bar>x\<bar> \<noteq> pow2 (int b - 1)" and "k = - int b"
  shows "binade x = k"
  using assms by (simp add: binade_def Let_def)

lemma round_half_even_exact: "y = of_int f \<Longrightarrow> round_half_even y = f"
  by (simp add: round_half_even_def)

lemma round_half_even_down:
  assumes "of_int f \<le> y" and "y - of_int f < 1 / 2"
  shows "round_half_even y = f"
proof -
  from assms have "\<lfloor>y\<rfloor> = f" by (simp add: floor_eq_iff)
  with assms show ?thesis by (simp add: round_half_even_def)
qed

lemma round_half_even_up:
  assumes "of_int f \<le> y" and "1 / 2 < y - of_int f" and "y < of_int f + 1"
  shows "round_half_even y = f + 1"
proof -
  from assms have "\<lfloor>y\<rfloor> = f" by (simp add: floor_eq_iff)
  with assms show ?thesis by (simp add: round_half_even_def)
qed

lemma round_half_even_tie_even:
  assumes "y - of_int f = 1 / 2" and "even f"
  shows "round_half_even y = f"
proof -
  from assms have "\<lfloor>y\<rfloor> = f" by (simp add: floor_eq_iff algebra_simps)
  with assms show ?thesis by (simp add: round_half_even_def)
qed

lemma round_half_even_tie_odd:
  assumes "y - of_int f = 1 / 2" and "odd f"
  shows "round_half_even y = f + 1"
proof -
  from assms have "\<lfloor>y\<rfloor> = f" by (simp add: floor_eq_iff algebra_simps)
  with assms show ?thesis by (simp add: round_half_even_def)
qed

lemma round_to_eval:
  assumes "x \<noteq> 0" and "binade x = k" and "x / pow2 (k - int prec + 1) = y"
    and "round_half_even y = m"
  shows "round_to prec x = of_int m * pow2 (k - int prec + 1)"
  using assms by (simp add: round_to_def Let_def)

lemma single_18: "round_to 24 (18) = 18"
proof -
  have k: "binade (18) = 4"
    by (rule binade_big[where f = 18 and b = 5]) (simp_all add: floor_eq_iff bit_length_eval)
  have y: "(18) / pow2 (4 - int 24 + 1) = 9437184"
    by (simp add: pow2_def)
  have m: "round_half_even (9437184) = 9437184"
    by (rule round_half_even_exact) simp
  from round_to_eval[OF _ k y m] show ?thesis
    by (simp add: pow2_def)
qed

lemma single_100: "round_to 24 (100) = 100"
proof -
  have k: "binade (100) = 6"
    by (rule binade_big[where f = 100 and b = 7]) (simp_all add: floor_eq_iff bit_length_eval)
  have y: "(100) / pow2 (6 - int 24 + 1) = 13107200"
    by (simp add: pow2_def)
  have m: "round_half_even (13107200) = 13107200"
    by (rule round_half_even_exact) simp
  from round_to_eval[OF _ k y m] show ?thesis
    by (simp add: pow2_def)
qed

lemma single_18_div_100: "round_to 24 (9 / 50) = 3019899 / 16777216"
proof -
  have k: "binade (9 / 50) = (- 3)"
    by (rule binade_small[where f = 5 and b = 3]) (simp_all add: floor_eq_iff bit_length_eval pow2_def)
  have y: "(9 / 50) / pow2 ((- 3) - int 24 + 1) = 301989888 / 25"
    by (simp add: pow2_def)
  have m: "round_half_even (301989888 / 25) = 12079595 + 1"
    by (rule round_half_even_up) simp_all
  from round_to_eval[OF _ k y m] show ?thesis
    by (simp add: pow2_def)
qed

lemma double_1_plus_18: "round_to 53 (19797115 / 16777216) = 19797115 / 16777216"
proof -
  have k: "binade (19797115 / 16777216) = 0"
    by (rule binade_big[where f = 1 and b = 1]) (simp_all add: floor_eq_iff bit_length_eval)
  have y: "(19797115 / 16777216) / pow2 (0 - int 53 + 1) = 5314247592509440"
    by (simp add: pow2_def)
  have m: "round_half_even (5314247592509440) = 5314247592509440"
    by (rule round_half_even_exact) simp
  from round_to_eval[OF _ k y m] show ?thesis
    by (simp add: pow2_def)
qed

lemma single_sum_18: "round_to 24 (19797115 / 16777216) = 4949279 / 4194304"
proof -
  have k: "binade (19797115 / 16777216) = 0"
    by (rule binade_big[where f = 1 and b = 1]) (simp_all add: floor_eq_iff bit_length_eval)
  have y: "(19797115 / 16777216) / pow2 (0 - int 24 + 1) = 19797115 / 2"
    by (simp add: pow2_def)
  have m: "round_half_even (19797115 / 2) = 9898557 + 1"
    by (rule round_half_even_tie_odd) simp_all
  from round_to_eval[OF _ k y m] show ?thesis
    by (simp add: pow2_def)
qed

lemma double_18_div_100: "round_to 53 (9 / 50) = 3242591731706757 / 18014398509481984"
proof -
  have k: "binade (9 / 50) = (- 3)"
    by (rule binade_small[where f = 5 and b = 3]) (simp_all add: floor_eq_iff bit_length_eval pow2_def)
  have y: "(9 / 50) / pow2 ((- 3) - int 53 + 1) = 162129586585337856 / 25"
    by (simp add: pow2_def)
  have m: "round_half_even (162129586585337856 / 25) = 6485183463413514"
    by (rule round_half_even_down) simp_all
  from round_to_eval[OF _ k y m] show ?thesis
    by (simp add: pow2_def)
qed

lemma double_1_plus_18_exact: "round_to 53 (21256990241188741 / 18014398509481984) = 5314247560297185 / 4503599627370496"
proof -
  have k: "binade (21256990241188741 / 18014398509481984) = 0"
    by (rule binade_big[where f = 1 and b = 1]) (simp_all add: floor_eq_iff bit_length_eval)
  have y: "(21256990241188741 / 18014398509481984) / pow2 (0 - int 53 + 1) = 21256990241188741 / 4"
    by (simp add: pow2_def)
  have m: "round_half_even (21256990241188741 / 4) = 5314247560297185"
    by (rule round_half_even_down) simp_all
  from round_to_eval[OF _ k y m] show ?thesis
    by (simp add: pow2_def)
qed

lemma single_nearest_18: "round_to 24 (5314247560297185 / 4503599627370496) = 9898557 / 8388608"
proof -
  have k: "binade (5314247560297185 / 4503599627370496) = 0"
    by (rule binade_big[where f = 1 and b = 1]) (simp_all add: floor_eq_iff bit_length_eval)
  have y: "(5314247560297185 / 4503599627370496) / pow2 (0 - int 24 + 1) = 5314247560297185 / 536870912"
    by (simp add: pow2_def)
  have m: "round_half_even (5314247560297185 / 536870912) = 9898557"
    by (rule round_half_even_down) simp_all
  from round_to_eval[OF _ k y m] show ?thesis
    by (simp add: pow2_def)
qed

lemma single_20: "round_to 24 (20) = 20"
proof -
  have k: "binade (20) = 4"
    by (rule binade_big[where f = 20 and b = 5]) (simp_all add: floor_eq_iff bit_length_eval)
  have y: "(20) / pow2 (4 - int 24 + 1) = 10485760"
    by (simp add: pow2_def)
  have m: "round_half_even (10485760) = 10485760"
    by (rule round_half_even_exact) simp
  from round_to_eval[OF _ k y m] show ?thesis
    by (simp add: pow2_def)
qed

lemma single_20_div_100: "round_to 24 (1 / 5) = 13421773 / 67108864"
proof -
  have k: "binade (1 / 5) = (- 3)"
    by (rule binade_small[where f = 5 and b = 3]) (simp_all add: floor_eq_iff bit_length_eval pow2_def)
  have y: "(1 / 5) / pow2 ((- 3) - int 24 + 1) = 67108864 / 5"
    by (simp add: pow2_def)
  have m: "round_half_even (67108864 / 5) = 13421772 + 1"
    by (rule round_half_even_up) simp_all
  from round_to_eval[OF _ k y m] show ?thesis
    by (simp add: pow2_def)
qed

lemma double_1_plus_20: "round_to 53 (80530637 / 67108864) = 80530637 / 67108864"
proof -
  have k: "binade (80530637 / 67108864) = 0"
    by (rule binade_big[where f = 1 and b = 1]) (simp_all add: floor_eq_iff bit_length_eval)
  have y: "(80530637 / 67108864) / pow2 (0 - int 53 + 1) = 5404319566266368"
    by (simp add: pow2_def)
  have m: "round_half_even (5404319566266368) = 5404319566266368"
    by (rule round_half_even_exact) simp
  from round_to_eval[OF _ k y m] show ?thesis
    by (simp add: pow2_def)
qed

lemma single_sum_20: "round_to 24 (80530637 / 67108864) = 5033165 / 4194304"
proof -
  have k: "binade (80530637 / 67108864) = 0"
    by (rule binade_big[where f = 1 and b = 1]) (simp_all add: floor_eq_iff bit_length_eval)
  have y: "(80530637 / 67108864) / pow2 (0 - int 24 + 1) = 80530637 / 8"
    by (simp add: pow2_def)
  have m: "round_half_even (80530637 / 8) = 10066329 + 1"
    by (rule round_half_even_up) simp_all
  from round_to_eval[OF _ k y m] show ?thesis
    by (simp add: pow2_def)
qed

lemma double_literal_12: "round_to 53 (6 / 5) = 5404319552844595 / 4503599627370496"
proof -
  have k: "binade (6 / 5) = 0"
    by (rule binade_big[where f = 1 and b = 1]) (simp_all add: floor_eq_iff bit_length_eval)
  have y: "(6 / 5) / pow2 (0 - int 53 + 1) = 27021597764222976 / 5"
    by (simp add: pow2_def)
  have m: "round_half_even (27021597764222976 / 5) = 5404319552844595"
    by (rule round_half_even_down) simp_all
  from round_to_eval[OF _ k y m] show ?thesis
    by (simp add: pow2_def)
qed

lemma single_literal_12: "round_to 24 (5404319552844595 / 4503599627370496) = 5033165 / 4194304"
proof -
  have k: "binade (5404319552844595 / 4503599627370496) = 0"
    by (rule binade_big[where f = 1 and b = 1]) (simp_all add: floor_eq_iff bit_length_eval)
  have y: "(5404319552844595 / 4503599627370496) / pow2 (0 - int 24 + 1) = 5404319552844595 / 536870912"
    by (simp add: pow2_def)
  have m: "round_half_even (5404319552844595 / 536870912) = 10066329 + 1"
    by (rule round_half_even_up) simp_all
  from round_to_eval[OF _ k y m] show ?thesis
    by (simp add: pow2_def)
qed

lemma double_1: "round_to 53 (1) = 1"
proof -
  have k: "binade (1) = 0"
    by (rule binade_big[where f = 1 and b = 1]) (simp_all add: floor_eq_iff bit_length_eval)
  have y: "(1) / pow2 (0 - int 53 + 1) = 4503599627370496"
    by (simp add: pow2_def)
  have m: "round_half_even (4503599627370496) = 4503599627370496"
    by (rule round_half_even_exact) simp
  from round_to_eval[OF _ k y m] show ?thesis
    by (simp add: pow2_def)
qed

lemma single_1: "round_to 24 (1) = 1"
proof -
  have k: "binade (1) = 0"
    by (rule binade_big[where f = 1 and b = 1]) (simp_all add: floor_eq_iff bit_length_eval)
  have y: "(1) / pow2 (0 - int 24 + 1) = 8388608"
    by (simp add: pow2_def)
  have m: "round_half_even (8388608) = 8388608"
    by (rule round_half_even_exact) simp
  from round_to_eval[OF _ k y m] show ?thesis
    by (simp add: pow2_def)
qed

lemma double_literal_10: "round_to 53 (1) = 1"
proof -
  have k: "binade (1) = 0"
    by (rule binade_big[where f = 1 and b = 1]) (simp_all add: floor_eq_iff bit_length_eval)
  have y: "(1) / pow2 (0 - int 53 + 1) = 4503599627370496"
    by (simp add: pow2_def)
  have m: "round_half_even (4503599627370496) = 4503599627370496"
    by (rule round_half_even_exact) simp
  from round_to_eval[OF _ k y m] show ?thesis
    by (simp add: pow2_def)
qed


lemma round_to_0: "round_to prec 0 = 0"
  by (simp add: round_to_def)

lemmas rounding_eval = single_18 single_100 single_18_div_100 double_1_plus_18 single_sum_18
  double_18_div_100 double_1_plus_18_exact single_nearest_18 single_20 single_20_div_100
  double_1_plus_20 single_sum_20 double_literal_12 single_literal_12 double_1 single_1
  round_to_0

lemma decimal_literal_12: "decimal_literal ''1.2'' = Some (12 / 10)"
  by (simp add: decimal_literal_def isdigit_def decimal_def digit_val_def)

text \<open>
  C6, as the code has it. The option \<open>-t\<close> with argument \<open>a\<close> stores the expression
  \<open>1.0 + static_cast<float>(atoi(a)) / 100\<close>, whose \<open>float\<close> value for the percent
  \<open>p\<close> is the sum of 1 and the \<open>float\<close> quotient of \<open>p\<close> by 100, rounded to
  \<open>float\<close>. For \<open>-t 0\<close> this is exactly 1; for \<open>-t 20\<close> it is 5033165/4194304
  (the bits \<open>3F99999A\<close>), the \<open>float\<close> nearest to 1.2, which is also the value of the
  default \<open>1.2\<close> that stays when \<open>-t\<close> is absent.
\<close>

theorem q_tolerance_of_percent:
  "switch_body CHR ''t'' (Some a) st
     = Continue (st\<lparr>params := (params st)\<lparr>q_tolerance := Tolerance_of_percent (atoi a)\<rparr>\<rparr>) \<and>
   float_value (Tolerance_of_percent p)
     = Some (binary32 (binary64 (1 + binary32 (binary32 (of_int p) / binary32 100)))) \<and>
   parse_options True [''-B'', ''-t'', ''20'']
     = Inr (main_init\<lparr>params := params_init\<lparr>benchmark_mode := True,
                 q_tolerance := Tolerance_of_percent 20\<rparr>, input_specified := True\<rparr>) \<and>
   float_value (Tolerance_of_percent 20) = Some (5033165 / 4194304) \<and>
   parse_options True [''-B'', ''-t'', ''0'']
     = Inr (main_init\<lparr>params := params_init\<lparr>benchmark_mode := True,
                 q_tolerance := Tolerance_of_percent 0\<rparr>, input_specified := True\<rparr>) \<and>
   float_value (Tolerance_of_percent 0) = Some 1 \<and>
   parse_options True [''-B'']
     = Inr (main_init\<lparr>params := params_init\<lparr>benchmark_mode := True\<rparr>,
              input_specified := True\<rparr>) \<and>
   float_value (q_tolerance params_init) = Some (5033165 / 4194304)"
proof -
  have 1: "switch_body CHR ''t'' (Some a) st
     = Continue (st\<lparr>params := (params st)\<lparr>q_tolerance := Tolerance_of_percent (atoi a)\<rparr>\<rparr>)"
    by (simp add: switch_body_def with_optarg_def set_param_def)
  have 2: "float_value (Tolerance_of_percent p)
     = Some (binary32 (binary64 (1 + binary32 (binary32 (of_int p) / binary32 100))))"
    by (simp add: float_value_def)
  have 3: "parse_options True [''-B'', ''-t'', ''20'']
     = Inr (main_init\<lparr>params := params_init\<lparr>benchmark_mode := True,
                 q_tolerance := Tolerance_of_percent 20\<rparr>, input_specified := True\<rparr>)"
    by code_simp
  have 4: "float_value (Tolerance_of_percent 20) = Some (5033165 / 4194304)"
    by (simp add: float_value_def binary32_def binary64_def rounding_eval)
  have 5: "parse_options True [''-B'', ''-t'', ''0'']
     = Inr (main_init\<lparr>params := params_init\<lparr>benchmark_mode := True,
                 q_tolerance := Tolerance_of_percent 0\<rparr>, input_specified := True\<rparr>)"
    by code_simp
  have 6: "float_value (Tolerance_of_percent 0) = Some 1"
    by (simp add: float_value_def binary32_def binary64_def rounding_eval)
  have 7: "parse_options True [''-B'']
     = Inr (main_init\<lparr>params := params_init\<lparr>benchmark_mode := True\<rparr>,
              input_specified := True\<rparr>)"
    by code_simp
  have 8: "float_value (q_tolerance params_init) = Some (5033165 / 4194304)"
    by (simp add: params_init_def float_value_def decimal_literal_12 binary32_def binary64_def
          rounding_eval)
  from 1 2 3 4 5 6 7 8 show ?thesis by blast
qed

text \<open>
  C6, as stated, fails for \<open>-t 18\<close>: the value stored is 4949279/4194304 (the bits
  \<open>3F970A3E\<close>), while \<open>1.0 + 18/100.0\<close> as a floating-point value, the sum in
  \<open>double\<close> converted to \<open>float\<close>, is 9898557/8388608 (the bits \<open>3F970A3D\<close>),
  one unit in the last place below.
\<close>

theorem q_tolerance_18_counterexample:
  "parse_options True [''-B'', ''-t'', ''18'']
     = Inr (main_init\<lparr>params := params_init\<lparr>benchmark_mode := True,
                 q_tolerance := Tolerance_of_percent 18\<rparr>, input_specified := True\<rparr>) \<and>
   float_value (Tolerance_of_percent 18) = Some (4949279 / 4194304) \<and>
   binary32 (binary64 (1 + binary64 (18 / 100))) = 9898557 / 8388608 \<and>
   float_value (Tolerance_of_percent 18) \<noteq> Some (binary32 (binary64 (1 + binary64 (18 / 100))))"
proof -
  have 1: "parse_options True [''-B'', ''-t'', ''18'']
     = Inr (main_init\<lparr>params := params_init\<lparr>benchmark_mode := True,
                 q_tolerance := Tolerance_of_percent 18\<rparr>, input_specified := True\<rparr>)"
    by code_simp
  have 2: "float_value (Tolerance_of_percent 18) = Some (4949279 / 4194304)"
    by (simp add: float_value_def binary32_def binary64_def rounding_eval)
  have 3: "binary32 (binary64 (1 + binary64 (18 / 100))) = 9898557 / 8388608"
    by (simp add: binary32_def binary64_def rounding_eval)
  from 1 2 3 show ?thesis by simp
qed

end
